theory Spec2Isabelle
  imports Main "HOL-Library.Multiset" "HOL-Library.Word"
begin

section \<open>Data model\<close>

text \<open>
  The program reads Zeek log exports with pandas and draws two charts. The model starts
  at the table that \<^verbatim>\<open>pd.read_csv\<close> hands back: a list of column names and a list
  of rows, every row giving one cell per column name. A cell is missing (\<open>NA\<close>; the
  reader maps \<^verbatim>\<open>"-"\<close>, \<^verbatim>\<open>"(empty)"\<close> and the empty string to it), a number, or
  text that is not a number. A number \<open>Num n\<close> is an integer that fits pandas' int64: 64
  bits, read as a signed value by \<open>sint\<close> (byte counts, whole epoch seconds). Fractional
  numbers, integers beyond 64 bits and IEEE special values are outside the model.

  pandas types whole columns. A column with a number in every cell is
  held as int64, and arithmetic on it wraps around. A column of numbers with a missing or
  non-numeric cell is held as float64 once it is converted: each number becomes the nearest
  double, which is again a whole number, \<open>Dbl x\<close>, and arithmetic rounds to the nearest
  double.

  Two more kinds of cell only arise in columns the program computes: a timestamp (whole
  seconds since the epoch) and a list of strings, which lives between \<^verbatim>\<open>apply\<close> and
  \<^verbatim>\<open>explode\<close>. Text is ASCII: \<open>lower\<close> and \<open>strip\<close> leave other bytes alone.
\<close>

datatype cell = NA | Num "64 word" | Dbl int | Str string | Stamp int | Lst "string list"

type_synonym row = "string \<Rightarrow> cell"

record frame =
  columns :: "string list"
  rows :: "row list"

text \<open>The four standardized columns, as one typed record per row of the returned table.\<close>

datatype dtcell = Timestamp int | NaT | Unparseable

record event =
  datetime :: dtcell
  unified_protocol :: "string option"
  total_bytes :: int
  event_count :: int

section \<open>Python string operations\<close>

text \<open>\<^verbatim>\<open>s.split(',')\<close>: the pieces between separators; an empty string gives one empty piece.\<close>

fun split_acc :: "char \<Rightarrow> string \<Rightarrow> string \<Rightarrow> string list" where
  "split_acc sep acc [] = [rev acc]"
| "split_acc sep acc (c # cs) =
     (if c = sep then rev acc # split_acc sep [] cs else split_acc sep (c # acc) cs)"

definition split_comma :: "string \<Rightarrow> string list" where
  "split_comma s = split_acc (CHR '','') [] s"

definition is_space :: "char \<Rightarrow> bool" where
  "is_space c = (c \<in> set [CHR 0x09, CHR 0x0A, CHR 0x0B, CHR 0x0C, CHR 0x0D,
                            CHR 0x1C, CHR 0x1D, CHR 0x1E, CHR 0x1F, CHR 0x20])"

definition strip :: "string \<Rightarrow> string" where
  "strip s = rev (dropWhile is_space (rev (dropWhile is_space s)))"

definition lower_char :: "char \<Rightarrow> char" where
  "lower_char c =
     (case map_of (zip ''ABCDEFGHIJKLMNOPQRSTUVWXYZ'' ''abcdefghijklmnopqrstuvwxyz'') c of
        None \<Rightarrow> c
      | Some d \<Rightarrow> d)"

definition lower :: "string \<Rightarrow> string" where
  "lower s = map lower_char s"

text \<open>\<^verbatim>\<open>s.replace(pat, "")\<close> for a non-empty pattern: every occurrence, left to right.\<close>

function remove_all :: "string \<Rightarrow> string \<Rightarrow> string" where
  "remove_all pat [] = []"
| "remove_all pat (c # cs) =
     (if pat \<noteq> [] \<and> take (length pat) (c # cs) = pat
      then remove_all pat (drop (length pat) (c # cs))
      else c # remove_all pat cs)"
  by pat_completeness auto
termination
  by (relation "measure (\<lambda>(pat, s). length s)") auto

text \<open>\<^verbatim>\<open>str(n)\<close> for an integer.\<close>

function nat_digits :: "nat \<Rightarrow> string" where
  "nat_digits n =
     (if n < 10 then [''0123456789'' ! n]
      else nat_digits (n div 10) @ [''0123456789'' ! (n mod 10)])"
  by pat_completeness auto
termination
  by (relation "measure id") auto

definition py_str_int :: "int \<Rightarrow> string" where
  "py_str_int n = (if n < 0 then CHR ''-'' # nat_digits (nat (- n)) else nat_digits (nat n))"

section \<open>Column operations\<close>

text \<open>\<^verbatim>\<open>df[c] = ...\<close>: the column is replaced in every row, and appended to the
  column names when it is new.\<close>

definition assign :: "string \<Rightarrow> (row \<Rightarrow> cell) \<Rightarrow> frame \<Rightarrow> frame" where
  "assign c f df =
     \<lparr>columns = (if c \<in> set (columns df) then columns df else columns df @ [c]),
      rows = map (\<lambda>r. r(c := f r)) (rows df)\<rparr>"

text \<open>
  The nearest double to an integer, ties to the even mantissa. A double has 53 bits of
  mantissa: \<open>ulp_exp m\<close> is the number of low bits that \<open>m\<close> has beyond them.
\<close>

function ulp_exp :: "int \<Rightarrow> nat" where
  "ulp_exp m = (if m < 2 ^ 53 then 0 else Suc (ulp_exp (m div 2)))"
  by pat_completeness auto
termination
  by (relation "measure nat") auto

definition round_f64 :: "int \<Rightarrow> int" where
  "round_f64 n =
     (let m = \<bar>n\<bar>; e = ulp_exp m
      in if e = 0 then n
         else
           let q = m div 2 ^ e; r = m mod 2 ^ e; h = 2 ^ (e - 1);
               q' = (if h < r \<or> (r = h \<and> odd q) then q + 1 else q)
           in sgn n * (q' * 2 ^ e))"

fun is_num :: "cell \<Rightarrow> bool" where
  "is_num (Num n) = True"
| "is_num _ = False"

text \<open>The column is one that pandas holds as int64 (with no row at all, nothing is read).\<close>

definition int_column :: "string \<Rightarrow> frame \<Rightarrow> bool" where
  "int_column c df = list_all (\<lambda>r. is_num (r c)) (rows df)"

text \<open>
  \<^verbatim>\<open>pd.to_numeric(x, errors="coerce")\<close> on one cell of a column; \<open>is_int\<close> says that
  the column is an int64 column. Anything that is not a number becomes missing, and in a
  column that is not int64 the numbers become doubles.
\<close>

fun to_numeric :: "bool \<Rightarrow> cell \<Rightarrow> cell" where
  "to_numeric is_int (Num n) = (if is_int then Num n else Dbl (round_f64 (sint n)))"
| "to_numeric is_int (Dbl x) = Dbl x"
| "to_numeric is_int c = NA"

fun fillna :: "cell \<Rightarrow> cell \<Rightarrow> cell" where
  "fillna v NA = v"
| "fillna v c = c"

text \<open>
  \<^verbatim>\<open>a + b\<close> on two numeric columns, cell by cell: int64 plus int64 is 64-bit addition,
  which wraps around; as soon as one side is float64 the other is converted and the sum is
  the nearest double to the exact sum.
\<close>

fun add_cells :: "cell \<Rightarrow> cell \<Rightarrow> cell" where
  "add_cells (Num a) (Num b) = Num (a + b)"
| "add_cells (Num a) (Dbl y) = Dbl (round_f64 (round_f64 (sint a) + y))"
| "add_cells (Dbl x) (Num b) = Dbl (round_f64 (x + round_f64 (sint b)))"
| "add_cells (Dbl x) (Dbl y) = Dbl (round_f64 (x + y))"
| "add_cells a b = NA"

text \<open>The whole number that a numeric cell holds.\<close>

fun cell_value :: "cell \<Rightarrow> int" where
  "cell_value (Num n) = sint n"
| "cell_value (Dbl x) = x"
| "cell_value c = 0"

text \<open>\<^verbatim>\<open>pd.to_datetime(x, unit="s", errors="coerce")\<close>: pandas timestamps count
  nanoseconds in 64 bits, so a second count outside that range is coerced to NaT.\<close>

definition stamp_in_range :: "int \<Rightarrow> cell" where
  "stamp_in_range t = (if - 9223372036 \<le> t \<and> t \<le> 9223372036 then Stamp t else NA)"

fun to_datetime_s :: "cell \<Rightarrow> cell" where
  "to_datetime_s (Num n) = stamp_in_range (sint n)"
| "to_datetime_s (Dbl x) = stamp_in_range x"
| "to_datetime_s c = NA"

text \<open>\<^verbatim>\<open>str(x)\<close> of a cell of the \<open>service\<close> column after \<^verbatim>\<open>fillna\<close>.\<close>

fun py_str :: "cell \<Rightarrow> string" where
  "py_str (Str s) = s"
| "py_str (Num n) = py_str_int (sint n)"
| "py_str (Dbl x) = py_str_int x @ ''.0''"
| "py_str NA = ''nan''"
| "py_str (Stamp t) = py_str_int t"
| "py_str (Lst xs) = concat xs"

text \<open>\<^verbatim>\<open>df.explode(c)\<close>: a row whose cell is a list becomes one row per entry (an empty
  list gives one row with a missing cell); other rows stay.\<close>

definition explode_row :: "string \<Rightarrow> row \<Rightarrow> row list" where
  "explode_row c r =
     (case r c of
        Lst [] \<Rightarrow> [r(c := NA)]
      | Lst xs \<Rightarrow> map (\<lambda>x. r(c := Str x)) xs
      | _ \<Rightarrow> [r])"

definition explode :: "string \<Rightarrow> frame \<Rightarrow> frame" where
  "explode c df = df\<lparr>rows := concat (map (explode_row c) (rows df))\<rparr>"

text \<open>The \<^verbatim>\<open>.str\<close> accessor raises AttributeError on a column of numbers: a column pandas
  holds as integers, that is one with at least one row and a number in every cell.\<close>

definition str_accessor_raises :: "string \<Rightarrow> frame \<Rightarrow> bool" where
  "str_accessor_raises c df = (rows df \<noteq> [] \<and> list_all (\<lambda>r. is_num (r c)) (rows df))"

text \<open>\<^verbatim>\<open>.str.lower()\<close> on one cell: text is lowercased, anything else gives a missing value.\<close>

fun str_lower :: "cell \<Rightarrow> cell" where
  "str_lower (Str s) = Str (lower s)"
| "str_lower _ = NA"

section \<open>load_and_standardize_log\<close>

definition standardize_datetime :: "frame \<Rightarrow> frame" where
  "standardize_datetime df =
     (if ''ts'' \<in> set (columns df)
      then assign ''datetime'' (\<lambda>r. to_datetime_s (r ''ts''))
             (assign ''ts'' (\<lambda>r. to_numeric (int_column ''ts'' df) (r ''ts'')) df)
      else assign ''datetime'' (\<lambda>r. NA) df)"

text \<open>The protocol section; \<open>None\<close> is the exception that the \<^verbatim>\<open>except\<close> clause turns
  into "no result".\<close>

definition standardize_protocol :: "string \<Rightarrow> string \<Rightarrow> frame \<Rightarrow> frame option" where
  "standardize_protocol file_name log_type df =
     (if file_name = ''conn.log.csv'' \<and> ''service'' \<in> set (columns df)
      then
        let df1 = assign ''unified_protocol'' (\<lambda>r. fillna (Str ''unknown_service'') (r ''service'')) df;
            df2 = assign ''unified_protocol''
                    (\<lambda>r. Lst (map (\<lambda>s. lower (strip s)) (split_comma (py_str (r ''unified_protocol''))))) df1
        in Some (explode ''unified_protocol'' df2)
      else if ''proto'' \<in> set (columns df)
      then
        if str_accessor_raises ''proto'' df then None
        else Some (assign ''unified_protocol''
                     (\<lambda>r. str_lower (fillna (Str ''unknown_protocol'') (r ''proto''))) df)
      else if log_type \<noteq> []
      then Some (assign ''unified_protocol'' (\<lambda>r. Str (lower log_type)) df)
      else Some (assign ''unified_protocol'' (\<lambda>r. Str ''unknown_log_type'') df))"

text \<open>The byte section. \<^verbatim>\<open>fillna(0)\<close> only finds a cell to fill in a column that is
  float64, where the 0 it writes is the double 0.\<close>

definition standardize_bytes :: "string \<Rightarrow> frame \<Rightarrow> frame" where
  "standardize_bytes file_name df0 =
     (let df = assign ''total_bytes'' (\<lambda>r. Num 0) df0
      in if {''orig_bytes'', ''resp_bytes''} \<subseteq> set (columns df)
         then
           let df1 = assign ''orig_bytes''
                       (\<lambda>r. to_numeric (int_column ''orig_bytes'' df) (r ''orig_bytes'')) df;
               df2 = assign ''resp_bytes''
                       (\<lambda>r. to_numeric (int_column ''resp_bytes'' df1) (r ''resp_bytes'')) df1
           in assign ''total_bytes''
                (\<lambda>r. add_cells (fillna (Dbl 0) (r ''orig_bytes'')) (fillna (Dbl 0) (r ''resp_bytes''))) df2
         else if ''response_body_len'' \<in> set (columns df)
         then assign ''total_bytes''
                (\<lambda>r. fillna (Dbl 0)
                       (to_numeric (int_column ''response_body_len'' df) (r ''response_body_len''))) df
         else if file_name = ''files.log.csv'' \<and> ''total_bytes'' \<in> set (columns df)
         then assign ''total_bytes''
                (\<lambda>r. fillna (Dbl 0)
                       (to_numeric (int_column ''total_bytes'' df) (r ''total_bytes''))) df
         else df)"

text \<open>\<^verbatim>\<open>df[["datetime", "unified_protocol", "total_bytes", "event_count"]]\<close>, read into
  the typed record.\<close>

definition select_row :: "row \<Rightarrow> event" where
  "select_row r =
     \<lparr>datetime = (case r ''datetime'' of Stamp t \<Rightarrow> Timestamp t | _ \<Rightarrow> NaT),
      unified_protocol = (case r ''unified_protocol'' of Str s \<Rightarrow> Some s | _ \<Rightarrow> None),
      total_bytes = cell_value (r ''total_bytes''),
      event_count = cell_value (r ''event_count'')\<rparr>"

definition select_standard :: "frame \<Rightarrow> event list" where
  "select_standard df = map select_row (rows df)"

text \<open>The argument \<open>parsed\<close> is what \<^verbatim>\<open>pd.read_csv\<close> returned, \<open>None\<close> when it raised.\<close>

definition load_and_standardize_log :: "string \<Rightarrow> frame option \<Rightarrow> event list option" where
  "load_and_standardize_log file_name parsed =
     (let log_type = remove_all ''.log.csv'' file_name
      in case parsed of
           None \<Rightarrow> None
         | Some df0 \<Rightarrow>
             (let df1 = assign ''event_count'' (\<lambda>r. Num 1) df0;
                  df2 = standardize_datetime df1
              in map_option (\<lambda>df3. select_standard (standardize_bytes file_name df3))
                   (standardize_protocol file_name log_type df2)))"

section \<open>Charts as effects\<close>

text \<open>
  Both plotting functions return nothing; what they do is print to the console and call
  matplotlib. The model returns these effects in order. A message stands for the text
  printed: \<^verbatim>\<open>"No valid timestamps found for line chart."\<close>,
  \<^verbatim>\<open>"Resample failed: ..."\<close> followed by the exception's text, and
  \<^verbatim>\<open>"No data after resampling for the selected frequency."\<close>. \<open>Pie\<close> carries the
  labels and values given to \<^verbatim>\<open>plt.pie\<close>, \<open>Plot\<close> the points given to \<^verbatim>\<open>plt.plot\<close>
  (bucket start, summed count), \<open>Savefig\<close> the output path.
\<close>

type_synonym label = "string option"

datatype message = NoValidTimestamps | ResampleFailed | NoDataAfterResampling

datatype effect =
    Print message
  | Pie "(label \<times> int) list"
  | Plot "(int \<times> int) list"
  | Savefig string
  | Show

definition save_and_show :: "string option \<Rightarrow> effect list" where
  "save_and_show out_path = (case out_path of None \<Rightarrow> [] | Some p \<Rightarrow> [Savefig p]) @ [Show]"

section \<open>plot_protocol_pie\<close>

definition transport_protocols_to_exclude :: "string list" where
  "transport_protocols_to_exclude =
     [''tcp'', ''udp'', ''unknown_transport'', ''icmp'', ''arp'',
      ''unknown_protocol'', ''unknown_service'', ''unknown_log_type'']"

text \<open>\<^verbatim>\<open>Series.isin\<close>: a missing label is in no set of strings.\<close>

definition isin :: "label \<Rightarrow> string list \<Rightarrow> bool" where
  "isin l xs = (case l of None \<Rightarrow> False | Some p \<Rightarrow> p \<in> set xs)"

text \<open>
  \<^verbatim>\<open>groupby("unified_protocol", dropna=False)["event_count"].sum()\<close>: one entry per
  distinct label, the labels in ascending order (strings by code point, the missing label
  last), each with the sum of its rows' counts.
\<close>

fun str_le :: "string \<Rightarrow> string \<Rightarrow> bool" where
  "str_le [] ys = True"
| "str_le (x # xs) [] = False"
| "str_le (x # xs) (y # ys) =
     ((of_char x :: nat) < of_char y \<or> (x = y \<and> str_le xs ys))"

fun key_le :: "label \<Rightarrow> label \<Rightarrow> bool" where
  "key_le (Some a) (Some b) = str_le a b"
| "key_le k None = True"
| "key_le None (Some b) = False"

fun insert_key :: "label \<Rightarrow> label list \<Rightarrow> label list" where
  "insert_key k [] = [k]"
| "insert_key k (x # xs) = (if key_le k x then k # x # xs else x # insert_key k xs)"

definition sort_keys :: "label list \<Rightarrow> label list" where
  "sort_keys ks = foldr insert_key ks []"

definition group_sum :: "event list \<Rightarrow> label \<Rightarrow> int" where
  "group_sum df k = sum_list (map event_count (filter (\<lambda>e. unified_protocol e = k) df))"

definition groupby_sum :: "event list \<Rightarrow> (label \<times> int) list" where
  "groupby_sum df = map (\<lambda>k. (k, group_sum df k)) (sort_keys (remdups (map unified_protocol df)))"

text \<open>
  \<^verbatim>\<open>sort_values(ascending=False)\<close> orders the entries by falling count. Which of two
  entries with equal counts comes first is left to the library's sorting routine, so the
  sorting step is an argument \<open>srt\<close> of the model, and the theorems hold for every
  routine that \<open>sorts_descending\<close>. \<open>sort_values_desc\<close> is the routine that keeps equal
  counts in their given order.
\<close>

definition sorts_descending :: "((label \<times> int) list \<Rightarrow> (label \<times> int) list) \<Rightarrow> bool" where
  "sorts_descending srt =
     (\<forall>xs. mset (srt xs) = mset xs \<and> sorted_wrt (\<lambda>a b. snd b \<le> snd a) (srt xs))"

definition sort_values_desc :: "(label \<times> int) list \<Rightarrow> (label \<times> int) list" where
  "sort_values_desc xs = rev (sort_key snd (rev xs))"

definition top_n :: nat where
  "top_n = 8"

definition plot_protocol_pie ::
  "((label \<times> int) list \<Rightarrow> (label \<times> int) list) \<Rightarrow> event list \<Rightarrow> string option \<Rightarrow> effect list" where
  "plot_protocol_pie srt df out_path =
     (let filtered_df = filter (\<lambda>e. \<not> isin (unified_protocol e) transport_protocols_to_exclude) df;
          agg = srt (groupby_sum filtered_df);
          agg' = (if length agg > top_n
                  then take top_n agg @ [(Some ''other'', sum_list (map snd (drop top_n agg)))]
                  else agg)
      in Pie agg' # save_and_show out_path)"

section \<open>plot_connections_over_time\<close>

text \<open>
  The function receives a reference to the caller's table. Tables live in a store: every
  reference below \<open>next_ref\<close> names an allocated table. \<^verbatim>\<open>df.copy()\<close> and a boolean
  selection \<^verbatim>\<open>df[mask]\<close> allocate a new table; \<^verbatim>\<open>df["datetime"] = ...\<close> changes
  the table that the reference names, in place.
\<close>

record store =
  frames :: "nat \<Rightarrow> event list"
  next_ref :: nat

definition new_frame :: "event list \<Rightarrow> store \<Rightarrow> nat \<times> store" where
  "new_frame es s = (next_ref s, \<lparr>frames = (frames s)(next_ref s := es), next_ref = Suc (next_ref s)\<rparr>)"

definition copy_frame :: "nat \<Rightarrow> store \<Rightarrow> nat \<times> store" where
  "copy_frame r s = new_frame (frames s r) s"

definition set_datetime :: "nat \<Rightarrow> (dtcell \<Rightarrow> dtcell) \<Rightarrow> store \<Rightarrow> store" where
  "set_datetime r f s =
     s\<lparr>frames := (frames s)(r := map (\<lambda>e. e\<lparr>datetime := f (datetime e)\<rparr>) (frames s r))\<rparr>"

text \<open>\<^verbatim>\<open>pd.to_datetime(x, errors="coerce")\<close>: a timestamp stays, anything that cannot be
  read as one becomes NaT.\<close>

fun to_datetime :: "dtcell \<Rightarrow> dtcell" where
  "to_datetime (Timestamp t) = Timestamp t"
| "to_datetime NaT = NaT"
| "to_datetime Unparseable = NaT"

definition notna :: "dtcell \<Rightarrow> bool" where
  "notna d = (d \<noteq> NaT)"

text \<open>\<^verbatim>\<open>df.set_index("datetime").sort_index()["event_count"]\<close>: the counts keyed by
  timestamp, in ascending order of time.\<close>

fun stamp_of :: "dtcell \<Rightarrow> int option" where
  "stamp_of (Timestamp t) = Some t"
| "stamp_of _ = None"

definition count_series :: "event list \<Rightarrow> (int \<times> int) list" where
  "count_series df =
     sort_key fst (List.map_filter (\<lambda>e. map_option (\<lambda>t. (t, event_count e)) (stamp_of (datetime e))) df)"

text \<open>
  The bucket width: \<open>Seconds w\<close> is a whole number of seconds (\<^verbatim>\<open>"30S"\<close> is
  \<open>Seconds 30\<close>), \<open>Malformed\<close> a text that pandas does not accept as a frequency.

  \<^verbatim>\<open>series.resample(freq).sum()\<close> with the defaults for a width in seconds: buckets
  are closed on the left and labelled by their left edge; the grid is anchored at midnight
  of the first timestamp's day; the first bucket is the one holding the first timestamp,
  the last the one holding the last timestamp, and every bucket in between is present,
  an empty one with sum 0. A malformed or zero width raises, which is \<open>None\<close> here.
\<close>

datatype freq = Seconds nat | Malformed

definition bucket_sum :: "(int \<times> int) list \<Rightarrow> int \<Rightarrow> int \<Rightarrow> int" where
  "bucket_sum series b w = sum_list (map snd (filter (\<lambda>p. b \<le> fst p \<and> fst p < b + w) series))"

definition resample_buckets :: "int \<Rightarrow> (int \<times> int) list \<Rightarrow> (int \<times> int) list" where
  "resample_buckets w series =
     (if series = [] then []
      else
        let first = fst (hd series);
            last = fst (last series);
            origin = (first div 86400) * 86400;
            start = origin + ((first - origin) div w) * w;
            n = nat ((last - start) div w) + 1
        in map (\<lambda>i. (start + int i * w, bucket_sum series (start + int i * w) w)) [0..<n])"

fun resample_sum :: "freq \<Rightarrow> (int \<times> int) list \<Rightarrow> (int \<times> int) list option" where
  "resample_sum Malformed series = None"
| "resample_sum (Seconds w) series = (if w = 0 then None else Some (resample_buckets (int w) series))"

definition plot_connections_over_time ::
  "nat \<Rightarrow> freq \<Rightarrow> string option \<Rightarrow> store \<Rightarrow> effect list \<times> store" where
  "plot_connections_over_time df freq out_path s =
     (let (df1, s1) = copy_frame df s;
          s2 = set_datetime df1 to_datetime s1;
          (df2, s3) = new_frame (filter (\<lambda>e. notna (datetime e)) (frames s2 df1)) s2
      in if frames s3 df2 = [] then ([Print NoValidTimestamps], s3)
         else
           case resample_sum freq (count_series (frames s3 df2)) of
             None \<Rightarrow> ([Print ResampleFailed], s3)
           | Some connections \<Rightarrow>
               if connections = [] then ([Print NoDataAfterResampling], s3)
               else (Plot connections # save_and_show out_path, s3))"

section \<open>Auxiliary notions for the statements\<close>

text \<open>The number a byte cell stands for: missing and non-numeric cells count as 0.\<close>

definition numeric_or_zero :: "cell \<Rightarrow> int" where
  "numeric_or_zero c = (case c of Num n \<Rightarrow> sint n | Dbl x \<Rightarrow> x | _ \<Rightarrow> 0)"

text \<open>The characters that a trimmed, lowercased label is free of: the capital letters
  anywhere, the blank characters at either end.\<close>

definition ascii_uppercase :: string where
  "ascii_uppercase = ''ABCDEFGHIJKLMNOPQRSTUVWXYZ''"

definition ascii_whitespace :: string where
  "ascii_whitespace = [CHR '' '', CHR 0x09, CHR 0x0A, CHR 0x0B, CHR 0x0C, CHR 0x0D]"

text \<open>A row with every cell missing, the starting point of the example rows.\<close>

definition empty_row :: row where
  "empty_row = (\<lambda>k. NA)"

text \<open>The records that survive the exclusion of transport and placeholder labels.\<close>

definition non_excluded :: "event list \<Rightarrow> event list" where
  "non_excluded df = filter (\<lambda>e. \<not> isin (unified_protocol e) transport_protocols_to_exclude) df"

text \<open>Example data: one record per protocol, carrying that protocol's count; \<open>tcp\<close> is
  excluded, twelve application protocols remain.\<close>

definition proto_event :: "string \<Rightarrow> int \<Rightarrow> event" where
  "proto_event p c = \<lparr>datetime = NaT, unified_protocol = Some p, total_bytes = 0, event_count = c\<rparr>"



text \<open>A record has a valid timestamp when its \<open>datetime\<close> is neither null nor unparseable.\<close>

definition has_timestamp :: "event \<Rightarrow> bool" where
  "has_timestamp e = (stamp_of (datetime e) \<noteq> None)"

text \<open>The records whose timestamp lies in the left-closed bucket \<open>[a, b)\<close>.\<close>

definition events_between :: "event list \<Rightarrow> int \<Rightarrow> int \<Rightarrow> event list" where
  "events_between df a b =
     filter (\<lambda>e. case stamp_of (datetime e) of Some t \<Rightarrow> a \<le> t \<and> t < b | None \<Rightarrow> False) df"

text \<open>One row of \<^verbatim>\<open>df["datetime"] = pd.to_datetime(df["datetime"], errors="coerce")\<close>.\<close>

definition coerce_datetime :: "event \<Rightarrow> event" where
  "coerce_datetime e = e\<lparr>datetime := to_datetime (datetime e)\<rparr>"

text \<open>Example data: a connection record with a given \<open>datetime\<close> cell, and a store that
  holds one table, at reference 0.\<close>

definition conn_event :: "dtcell \<Rightarrow> event" where
  "conn_event d = \<lparr>datetime = d, unified_protocol = Some ''conn'', total_bytes = 0, event_count = 1\<rparr>"

definition single_frame :: "event list \<Rightarrow> store" where
  "single_frame es = \<lparr>frames = (\<lambda>r. [])(0 := es), next_ref = 1\<rparr>"

section \<open>Properties of the normalizer\<close>

subsection \<open>The stages, row by row\<close>

lemma rows_assign [simp]: "rows (assign c f df) = map (\<lambda>r. r(c := f r)) (rows df)"
  by (simp add: assign_def)
lemma columns_assign [simp]: "set (columns (assign c f df)) = insert c (set (columns df))"
  by (auto simp: assign_def)
lemma rows_explode [simp]: "rows (explode c df) = concat (map (explode_row c) (rows df))"
  by (simp add: explode_def)
lemma columns_explode [simp]: "columns (explode c df) = columns df"
  by (simp add: explode_def)

lemma split_acc_nonempty: "split_acc sep acc s \<noteq> []"
  by (induction s arbitrary: acc) auto

lemma explode_row_others:
  "r' \<in> set (explode_row c r) \<Longrightarrow> k \<noteq> c \<Longrightarrow> r' k = r k"
  by (auto simp: explode_row_def split: cell.splits list.splits)

lemma rows_standardize_datetime:
  obtains d where "rows (standardize_datetime df) = map d (rows df)"
    and "\<And>r k. k \<noteq> ''ts'' \<Longrightarrow> k \<noteq> ''datetime'' \<Longrightarrow> d r k = r k"
proof (cases "''ts'' \<in> set (columns df)")
  case True
  show ?thesis
    by (rule that [of "\<lambda>r. r(''ts'' := to_numeric (int_column ''ts'' df) (r ''ts''),
                                 ''datetime'' := to_datetime_s (to_numeric (int_column ''ts'' df) (r ''ts'')))"])
       (simp_all add: standardize_datetime_def True)
next
  case False
  show ?thesis
    by (rule that [of "\<lambda>r. r(''datetime'' := NA)"]) (simp_all add: standardize_datetime_def False)
qed

lemma columns_standardize_datetime:
  "set (columns (standardize_datetime df)) = insert ''datetime'' (set (columns df))"
  by (auto simp: standardize_datetime_def)

lemma standardize_protocol_rows:
  assumes "standardize_protocol fn lt df = Some df'"
  obtains h where "set (columns df') = insert ''unified_protocol'' (set (columns df))"
    and "rows df' = concat (map h (rows df))"
    and "\<And>r r' k. r' \<in> set (h r) \<Longrightarrow> k \<noteq> ''unified_protocol'' \<Longrightarrow> r' k = r k"
proof (cases "fn = ''conn.log.csv'' \<and> ''service'' \<in> set (columns df)")
  case True
  let ?f = "\<lambda>r. r(''unified_protocol'' :=
              Lst (map (\<lambda>s. lower (strip s))
                (split_comma (py_str (fillna (Str ''unknown_service'') (r ''service''))))))"
  from True assms have df': "df' = explode ''unified_protocol'' (assign ''unified_protocol''
                    (\<lambda>r. Lst (map (\<lambda>s. lower (strip s)) (split_comma (py_str (r ''unified_protocol'')))))
                    (assign ''unified_protocol'' (\<lambda>r. fillna (Str ''unknown_service'') (r ''service'')) df))"
    by (simp add: standardize_protocol_def Let_def)
  show ?thesis
  proof (rule that [of "\<lambda>r. explode_row ''unified_protocol'' (?f r)"])
    show "set (columns df') = insert ''unified_protocol'' (set (columns df))"
      by (simp add: df')
    show "rows df' = concat (map (\<lambda>r. explode_row ''unified_protocol'' (?f r)) (rows df))"
      by (simp add: df' o_def)
    fix r r' k
    assume r': "r' \<in> set (explode_row ''unified_protocol'' (?f r))" and k: "k \<noteq> ''unified_protocol''"
    from explode_row_others [OF r' k] k show "r' k = r k" by simp
  qed
next
  case False
  with assms obtain f where df': "df' = assign ''unified_protocol'' f df"
    by (auto simp: standardize_protocol_def split: if_splits)
  show ?thesis
    by (rule that [of "\<lambda>r. [r(''unified_protocol'' := f r)]"]) (simp_all add: df' o_def)
qed

subsection \<open>Numbers: int64 and float64\<close>

lemma ulp_exp_small: "m < 2 ^ 53 \<Longrightarrow> ulp_exp m = 0"
  by simp

lemma round_f64_id: "\<bar>n\<bar> < 2 ^ 53 \<Longrightarrow> round_f64 n = n"
  by (simp add: round_f64_def Let_def del: ulp_exp.simps add: ulp_exp_small)


lemma round_f64_zero [simp]: "round_f64 0 = 0"
  by (simp add: round_f64_id)

lemma round_f64_nonneg:
  assumes "0 \<le> n"
  shows "0 \<le> round_f64 n"
proof -
  have q: "0 \<le> n div 2 ^ e" for e :: nat
    using assms by (simp add: pos_imp_zdiv_nonneg_iff)
  have "0 \<le> (n div 2 ^ e + 1) * 2 ^ e" "0 \<le> n div 2 ^ e * 2 ^ e" for e :: nat
    using q [of e] by simp_all
  then show ?thesis
    using assms by (simp add: round_f64_def Let_def sgn_if del: ulp_exp.simps)
qed

lemma sint_add_exact:
  fixes a b :: "64 word"
  assumes "- (2 ^ 63) \<le> sint a + sint b" "sint a + sint b < 2 ^ 63"
  shows "sint (a + b) = sint a + sint b"
  using assms by (simp add: sint_word_ariths signed_take_bit_int_eq_self)

lemma numeric_or_zero_simps [simp]:
  "numeric_or_zero (Num n) = sint n" "numeric_or_zero (Dbl x) = x" "numeric_or_zero NA = 0"
  "numeric_or_zero (Str s) = 0" "numeric_or_zero (Stamp t) = 0" "numeric_or_zero (Lst xs) = 0"
  by (simp_all add: numeric_or_zero_def)

lemma value_nonneg:
  "0 \<le> numeric_or_zero a \<Longrightarrow> 0 \<le> cell_value (fillna (Dbl 0) (to_numeric i a))"
  by (cases a) (simp_all add: round_f64_nonneg)


lemma sum_value_nonneg:
  assumes "0 \<le> numeric_or_zero a" "0 \<le> numeric_or_zero b"
    and "numeric_or_zero a + numeric_or_zero b \<le> 2 ^ 63 - 1"
  shows "0 \<le> cell_value (add_cells (fillna (Dbl 0) (to_numeric i a)) (fillna (Dbl 0) (to_numeric j b)))"
proof -
  have w: "sint (x + y) = sint x + sint y"
    if "0 \<le> sint x" "0 \<le> sint y" "sint x + sint y \<le> 2 ^ 63 - 1" for x y :: "64 word"
    using that by (intro sint_add_exact) simp_all
  have f: "0 \<le> round_f64 (x + y)" if "0 \<le> x" "0 \<le> y" for x y
    using that by (intro round_f64_nonneg) simp
  show ?thesis
    using assms
    by (cases a; cases b; cases i; cases j) (simp_all add: w f round_f64_nonneg)
qed

lemma int_column_assign [simp]: "c \<noteq> c' \<Longrightarrow> int_column c (assign c' f df) = int_column c df"
  by (simp add: int_column_def list_all_iff)

text \<open>The byte section followed by the selection, in each of its three cases.\<close>

lemma select_bytes_both:
  assumes "''orig_bytes'' \<in> set (columns df)" "''resp_bytes'' \<in> set (columns df)"
  shows "select_standard (standardize_bytes fn df) =
         map (\<lambda>r. (select_row r)\<lparr>total_bytes :=
                cell_value (add_cells
                  (fillna (Dbl 0) (to_numeric (int_column ''orig_bytes'' df) (r ''orig_bytes'')))
                  (fillna (Dbl 0) (to_numeric (int_column ''resp_bytes'' df) (r ''resp_bytes''))))\<rparr>)
           (rows df)"
  using assms
  by (simp add: select_standard_def standardize_bytes_def Let_def select_row_def)

lemma select_bytes_body_len:
  assumes "\<not> (''orig_bytes'' \<in> set (columns df) \<and> ''resp_bytes'' \<in> set (columns df))"
    and "''response_body_len'' \<in> set (columns df)"
  shows "select_standard (standardize_bytes fn df) =
         map (\<lambda>r. (select_row r)\<lparr>total_bytes :=
                cell_value (fillna (Dbl 0)
                  (to_numeric (int_column ''response_body_len'' df) (r ''response_body_len'')))\<rparr>)
           (rows df)"
  using assms
  by (auto simp add: select_standard_def standardize_bytes_def Let_def select_row_def)

lemma select_bytes_default:
  assumes "\<not> (''orig_bytes'' \<in> set (columns df) \<and> ''resp_bytes'' \<in> set (columns df))"
    and "''response_body_len'' \<notin> set (columns df)"
  shows "select_standard (standardize_bytes fn df) =
         map (\<lambda>r. (select_row r)\<lparr>total_bytes := 0\<rparr>) (rows df)"
  using assms
  by (auto simp add: select_standard_def standardize_bytes_def Let_def select_row_def)

lemma load_pipeline:
  assumes "load_and_standardize_log fn (Some df) = Some out"
  obtains df3 h where "out = select_standard (standardize_bytes fn df3)"
    and "set (columns df3) = set (columns df) \<union> {''event_count'', ''datetime'', ''unified_protocol''}"
    and "rows df3 = concat (map h (rows df))"
    and "\<And>r r'. r' \<in> set (h r) \<Longrightarrow> r' ''event_count'' = Num 1"
    and "\<And>r r' k. r' \<in> set (h r) \<Longrightarrow>
           k \<notin> {''event_count'', ''ts'', ''datetime'', ''unified_protocol''} \<Longrightarrow> r' k = r k"
proof -
  let ?df1 = "assign ''event_count'' (\<lambda>r. Num 1) df"
  let ?df2 = "standardize_datetime ?df1"
  from assms obtain df3 where p: "standardize_protocol fn (remove_all ''.log.csv'' fn) ?df2 = Some df3"
    and out: "out = select_standard (standardize_bytes fn df3)"
    by (auto simp: load_and_standardize_log_def Let_def)
  obtain d where
    d: "rows ?df2 = map d (rows ?df1)" "\<And>r k. k \<noteq> ''ts'' \<Longrightarrow> k \<noteq> ''datetime'' \<Longrightarrow> d r k = r k"
    by (erule rows_standardize_datetime [of ?df1])
  obtain h where
    c3: "set (columns df3) = insert ''unified_protocol'' (set (columns ?df2))"
    and h: "rows df3 = concat (map h (rows ?df2))"
      "\<And>r r' k. r' \<in> set (h r) \<Longrightarrow> k \<noteq> ''unified_protocol'' \<Longrightarrow> r' k = r k"
    by (erule standardize_protocol_rows [OF p])
  let ?h = "\<lambda>r. h (d (r(''event_count'' := Num 1)))"
  show ?thesis
  proof (rule that [of df3 ?h])
    show "out = select_standard (standardize_bytes fn df3)" by (rule out)
    show "rows df3 = concat (map ?h (rows df))"
      by (simp add: h(1) d(1) o_def)
    show "set (columns df3) = set (columns df) \<union> {''event_count'', ''datetime'', ''unified_protocol''}"
      by (auto simp: c3 columns_standardize_datetime)
  next
    fix r r'
    assume "r' \<in> set (?h r)"
    then show "r' ''event_count'' = Num 1" by (simp add: h(2) d(2))
  next
    fix r r' k
    assume "r' \<in> set (?h r)" "k \<notin> {''event_count'', ''ts'', ''datetime'', ''unified_protocol''}"
    then show "r' k = r k" by (simp add: h(2) d(2))
  qed
qed

lemma pieces_of_concat:
  assumes "\<And>r e. e \<in> set (g r) \<Longrightarrow> P r e"
  shows "\<exists>pieces. concat (map g rs) = concat pieces \<and>
           list_all2 (\<lambda>r es. \<forall>e\<in>set es. P r e) rs pieces"
  by (rule exI [of _ "map g rs"]) (simp add: list_all2_map2 list.rel_refl assms)

subsection \<open>Trimming and lowercasing\<close>

lemma lower_char_cases:
  "lower_char c = c \<and> c \<notin> set ascii_uppercase \<or> lower_char c \<in> set ''abcdefghijklmnopqrstuvwxyz''"
  by (simp add: lower_char_def ascii_uppercase_def)

lemma lower_char_not_upper: "lower_char c \<notin> set ascii_uppercase"
  using lower_char_cases [of c] by (auto simp: ascii_uppercase_def)

lemma lower_char_not_space: "\<not> is_space c \<Longrightarrow> lower_char c \<notin> set ascii_whitespace"
  using lower_char_cases [of c] by (auto simp: ascii_whitespace_def is_space_def)

lemma last_dropWhile: "dropWhile P xs \<noteq> [] \<Longrightarrow> last (dropWhile P xs) = last xs"
  by (induction xs) (auto split: if_splits)

lemma strip_ends:
  assumes "strip s \<noteq> []"
  shows "\<not> is_space (hd (strip s))" "\<not> is_space (last (strip s))"
proof -
  let ?t = "dropWhile is_space s"
  let ?u = "dropWhile is_space (rev ?t)"
  from assms have u: "?u \<noteq> []" by (simp add: strip_def)
  have t: "?t \<noteq> []"
  proof
    assume a: "?t = []"
    have "?u = []" unfolding a by simp
    with u show False by simp
  qed
  have "\<not> is_space (hd ?u)" using u by (rule hd_dropWhile)
  then show "\<not> is_space (last (strip s))"
    using u by (simp add: strip_def last_rev)
  have "last ?u = last (rev ?t)" using u by (rule last_dropWhile)
  also have "\<dots> = hd ?t" using t by (simp add: last_rev)
  finally have "hd (strip s) = hd ?t" using u by (simp add: strip_def hd_rev)
  moreover have "\<not> is_space (hd ?t)" using t by (rule hd_dropWhile)
  ultimately show "\<not> is_space (hd (strip s))" by simp
qed

lemma label_clean:
  "(\<forall>c\<in>set (lower (strip x)). c \<notin> set ascii_uppercase) \<and>
   (lower (strip x) \<noteq> [] \<longrightarrow>
      hd (lower (strip x)) \<notin> set ascii_whitespace \<and> last (lower (strip x)) \<notin> set ascii_whitespace)"
proof (intro conjI ballI impI)
  fix c assume "c \<in> set (lower (strip x))"
  then show "c \<notin> set ascii_uppercase"
    using lower_char_not_upper by (auto simp: lower_def)
next
  assume "lower (strip x) \<noteq> []"
  then have ne: "strip x \<noteq> []" by (simp add: lower_def)
  from strip_ends [OF ne] ne
  show "hd (lower (strip x)) \<notin> set ascii_whitespace" "last (lower (strip x)) \<notin> set ascii_whitespace"
    by (simp_all add: lower_def hd_map last_map lower_char_not_space)
qed

subsection \<open>Connection logs: one record per service entry\<close>

lemma length_split_acc: "length (split_acc sep acc s) = Suc (count_list s sep)"
  by (induction s arbitrary: acc) auto

lemma length_split_comma: "length (split_comma s) = Suc (count_list s (CHR '',''))"
  by (simp add: split_comma_def length_split_acc)

lemma explode_row_Lst:
  "xs \<noteq> [] \<Longrightarrow> explode_row c (r(c := Lst xs)) = map (\<lambda>x. r(c := Str x)) xs"
  by (cases xs) (simp_all add: explode_row_def)

lemma select_bytes_any:
  obtains g where
    "select_standard (standardize_bytes fn df) = map (\<lambda>r. (select_row r)\<lparr>total_bytes := g r\<rparr>) (rows df)"
    and "\<And>r v. g (r(''unified_protocol'' := v)) = g r"
proof (cases "''orig_bytes'' \<in> set (columns df) \<and> ''resp_bytes'' \<in> set (columns df)")
  case True
  show ?thesis
    by (rule that [OF select_bytes_both]) (use True in simp_all)
next
  case False
  show ?thesis
  proof (cases "''response_body_len'' \<in> set (columns df)")
    case True
    show ?thesis
      by (rule that [OF select_bytes_body_len]) (use True False in simp_all)
  next
    case rbl: False
    show ?thesis
      by (rule that [OF select_bytes_default]) (use rbl False in simp_all)
  qed
qed

lemma load_conn_service:
  assumes "''service'' \<in> set (columns df)"
  obtains d g where
    "load_and_standardize_log ''conn.log.csv'' (Some df) =
       Some (concat (map (\<lambda>r. map (\<lambda>x. \<lparr>datetime = d r, unified_protocol = Some x,
                                            total_bytes = g r, event_count = 1\<rparr>)
                                  (map (\<lambda>s. lower (strip s))
                                     (split_comma (py_str (fillna (Str ''unknown_service'') (r ''service''))))))
                         (rows df)))"
proof -
  let ?df1 = "assign ''event_count'' (\<lambda>r. Num 1) df"
  let ?df2 = "standardize_datetime ?df1"
  let ?labels = "\<lambda>r. map (\<lambda>s. lower (strip s))
                   (split_comma (py_str (fillna (Str ''unknown_service'') (r ''service''))))"
  let ?f = "\<lambda>r. r(''unified_protocol'' := Lst (?labels r))"
  let ?df3 = "explode ''unified_protocol'' (assign ''unified_protocol''
                (\<lambda>r. Lst (map (\<lambda>s. lower (strip s)) (split_comma (py_str (r ''unified_protocol'')))))
                (assign ''unified_protocol'' (\<lambda>r. fillna (Str ''unknown_service'') (r ''service'')) ?df2))"
  obtain d where
    d: "rows ?df2 = map d (rows ?df1)" "\<And>r k. k \<noteq> ''ts'' \<Longrightarrow> k \<noteq> ''datetime'' \<Longrightarrow> d r k = r k"
    by (erule rows_standardize_datetime [of ?df1])
  obtain g where g: "select_standard (standardize_bytes ''conn.log.csv'' ?df3) =
      map (\<lambda>r. (select_row r)\<lparr>total_bytes := g r\<rparr>) (rows ?df3)"
    and g_up: "\<And>r v. g (r(''unified_protocol'' := v)) = g r"
    by (erule select_bytes_any [of "''conn.log.csv''" ?df3])
  have nonempty: "\<And>r. ?labels r \<noteq> []"
    by (simp add: split_comma_def split_acc_nonempty)
  have p: "\<And>lt. standardize_protocol ''conn.log.csv'' lt ?df2 = Some ?df3"
    using assms by (simp add: standardize_protocol_def Let_def columns_standardize_datetime)
  have rows3: "rows ?df3 = concat (map (\<lambda>r. map (\<lambda>x. (d (r(''event_count'' := Num 1)))(''unified_protocol'' := Str x))
                                  (?labels r)) (rows df))"
    by (simp add: d o_def explode_row_Lst [OF nonempty] explode_row_Lst [OF nonempty, simplified])
  let ?d = "\<lambda>r. case d (r(''event_count'' := Num 1)) ''datetime'' of Stamp t \<Rightarrow> Timestamp t | _ \<Rightarrow> NaT"
  let ?g = "\<lambda>r. g (d (r(''event_count'' := Num 1)))"
  have "select_standard (standardize_bytes ''conn.log.csv'' ?df3) =
        map (\<lambda>r. (select_row r)\<lparr>total_bytes := g r\<rparr>)
          (concat (map (\<lambda>r. map (\<lambda>x. (d (r(''event_count'' := Num 1)))(''unified_protocol'' := Str x))
                                  (?labels r)) (rows df)))"
    by (simp only: g rows3)
  also have "\<dots> = concat (map (\<lambda>r. map (\<lambda>x. \<lparr>datetime = ?d r, unified_protocol = Some x,
                                            total_bytes = ?g r, event_count = 1\<rparr>)
                                  (?labels r)) (rows df))"
    by (simp add: map_concat o_def select_row_def d(2) g_up)
  finally have sel: "select_standard (standardize_bytes ''conn.log.csv'' ?df3) =
      concat (map (\<lambda>r. map (\<lambda>x. \<lparr>datetime = ?d r, unified_protocol = Some x,
                                            total_bytes = ?g r, event_count = 1\<rparr>)
                                  (?labels r)) (rows df))" .
  show ?thesis
    by (rule that [of ?d ?g]) (simp only: load_and_standardize_log_def Let_def p sel option.simps)
qed

lemma groups_of_concat:
  assumes "\<And>r. r \<in> set rs \<Longrightarrow> Q r (g r)"
  shows "\<exists>pieces. concat (map g rs) = concat pieces \<and> list_all2 Q rs pieces"
  by (rule exI [of _ "map g rs"]) (simp add: list_all2_map2 list.rel_refl_strong assms)

subsection \<open>Byte totals\<close>






text \<open>
  C1. A files log whose \<open>total_bytes\<close> column holds 500 and a missing cell: the program first
  overwrites the column with 0 and only then reads it, so both records come out with
  \<open>total_bytes = 0\<close> and the file's own column is never used (lemma \<open>total_bytes_default\<close>
  shows the same for every file without the other byte columns).
\<close>

theorem files_log_total_bytes_overwritten:
  "load_and_standardize_log ''files.log.csv''
     (Some \<lparr>columns = [''ts'', ''total_bytes''],
            rows = [empty_row(''ts'' := Num 5, ''total_bytes'' := Num 500),
                    empty_row(''ts'' := Num 6)]\<rparr>) =
   Some [\<lparr>datetime = Timestamp 5, unified_protocol = Some ''files'', total_bytes = 0, event_count = 1\<rparr>,
         \<lparr>datetime = Timestamp 6, unified_protocol = Some ''files'', total_bytes = 0, event_count = 1\<rparr>]"
  by (simp add: load_and_standardize_log_def standardize_datetime_def standardize_protocol_def
          standardize_bytes_def select_standard_def select_row_def assign_def lower_def lower_char_def
          empty_row_def int_column_def round_f64_id stamp_in_range_def Let_def)

text \<open>
  C9 as stated fails: nothing in the normalizer clamps a negative number. A connection row
  with \<open>orig_bytes = -5\<close> and \<open>resp_bytes = 2\<close> gives \<open>total_bytes = -3\<close>.
\<close>

theorem negative_total_bytes:
  "load_and_standardize_log ''conn.log.csv''
     (Some \<lparr>columns = [''orig_bytes'', ''resp_bytes''],
            rows = [empty_row(''orig_bytes'' := Num (- 5), ''resp_bytes'' := Num 2)]\<rparr>) =
   Some [\<lparr>datetime = NaT, unified_protocol = Some ''conn'', total_bytes = - 3, event_count = 1\<rparr>]"
  by (simp add: load_and_standardize_log_def standardize_datetime_def standardize_protocol_def
          standardize_bytes_def select_standard_def select_row_def assign_def lower_def lower_char_def
          empty_row_def int_column_def round_f64_id stamp_in_range_def Let_def)

text \<open>
  C9, amended. Every returned record has a non-negative \<open>total_bytes\<close> when the byte cells
  the normalizer reads hold no negative number and, where it adds two of them, their sum
  does not exceed the largest int64, \<open>2^63 - 1\<close>: that is asked of the \<open>orig_bytes\<close> and
  \<open>resp_bytes\<close> cells of every row when both columns exist, and otherwise of the
  \<open>response_body_len\<close> cells when that column exists.
\<close>

theorem total_bytes_nonneg:
  assumes "load_and_standardize_log fn (Some df) = Some out"
    and "''orig_bytes'' \<in> set (columns df) \<and> ''resp_bytes'' \<in> set (columns df) \<longrightarrow>
           (\<forall>r\<in>set (rows df). 0 \<le> numeric_or_zero (r ''orig_bytes'') \<and>
                                 0 \<le> numeric_or_zero (r ''resp_bytes'') \<and>
                                 numeric_or_zero (r ''orig_bytes'') + numeric_or_zero (r ''resp_bytes'')
                                   \<le> 2 ^ 63 - 1)"
    and "\<not> (''orig_bytes'' \<in> set (columns df) \<and> ''resp_bytes'' \<in> set (columns df)) \<and>
         ''response_body_len'' \<in> set (columns df) \<longrightarrow>
           (\<forall>r\<in>set (rows df). 0 \<le> numeric_or_zero (r ''response_body_len''))"
  shows "\<forall>e\<in>set out. 0 \<le> total_bytes e"
proof -
  obtain df3 h where
    out: "out = select_standard (standardize_bytes fn df3)"
    and cols: "set (columns df3) = set (columns df) \<union> {''event_count'', ''datetime'', ''unified_protocol''}"
    and rws: "rows df3 = concat (map h (rows df))"
    and ones: "\<And>r r'. r' \<in> set (h r) \<Longrightarrow> r' ''event_count'' = Num 1"
    and keep: "\<And>r r' k. r' \<in> set (h r) \<Longrightarrow>
                 k \<notin> {''event_count'', ''ts'', ''datetime'', ''unified_protocol''} \<Longrightarrow> r' k = r k"
    by (erule load_pipeline [OF assms(1)])
  let ?both = "''orig_bytes'' \<in> set (columns df) \<and> ''resp_bytes'' \<in> set (columns df)"
  have origin: "\<exists>r\<in>set (rows df). r' ''orig_bytes'' = r ''orig_bytes'' \<and>
       r' ''resp_bytes'' = r ''resp_bytes'' \<and> r' ''response_body_len'' = r ''response_body_len''"
    if "r' \<in> set (rows df3)" for r'
  proof -
    from that obtain r where r: "r \<in> set (rows df)" and r': "r' \<in> set (h r)"
      by (auto simp: rws)
    from keep [OF r'] have "r' ''orig_bytes'' = r ''orig_bytes''" "r' ''resp_bytes'' = r ''resp_bytes''"
      "r' ''response_body_len'' = r ''response_body_len''" by simp_all
    with r show ?thesis by blast
  qed
  consider (both) ?both
    | (len) "\<not> ?both" "''response_body_len'' \<in> set (columns df)"
    | (none) "\<not> ?both" "''response_body_len'' \<notin> set (columns df)" by blast
  then show ?thesis
  proof cases
    case both
    let ?sel = "\<lambda>r. (select_row r)\<lparr>total_bytes :=
                cell_value (add_cells
                  (fillna (Dbl 0) (to_numeric (int_column ''orig_bytes'' df3) (r ''orig_bytes'')))
                  (fillna (Dbl 0) (to_numeric (int_column ''resp_bytes'' df3) (r ''resp_bytes''))))\<rparr>"
    from both have o: "out = map ?sel (rows df3)"
      unfolding out by (intro select_bytes_both) (simp_all add: cols)
    show ?thesis
    proof
      fix e assume "e \<in> set out"
      then obtain r' where r': "r' \<in> set (rows df3)" and e: "e = ?sel r'" unfolding o by auto
      from origin [OF r'] both assms(2)
      have "0 \<le> numeric_or_zero (r' ''orig_bytes'')" "0 \<le> numeric_or_zero (r' ''resp_bytes'')"
        "numeric_or_zero (r' ''orig_bytes'') + numeric_or_zero (r' ''resp_bytes'') \<le> 2 ^ 63 - 1"
        by auto
      then show "0 \<le> total_bytes e"
        unfolding e by (simp add: sum_value_nonneg)
    qed
  next
    case len
    let ?sel = "\<lambda>r. (select_row r)\<lparr>total_bytes :=
                cell_value (fillna (Dbl 0)
                  (to_numeric (int_column ''response_body_len'' df3) (r ''response_body_len'')))\<rparr>"
    from len have o: "out = map ?sel (rows df3)"
      unfolding out by (intro select_bytes_body_len) (simp_all add: cols)
    show ?thesis
    proof
      fix e assume "e \<in> set out"
      then obtain r' where r': "r' \<in> set (rows df3)" and e: "e = ?sel r'" unfolding o by auto
      from origin [OF r'] len assms(3)
      have "0 \<le> numeric_or_zero (r' ''response_body_len'')" by auto
      then show "0 \<le> total_bytes e"
        unfolding e by (simp add: value_nonneg)
    qed
  next
    case none
    then have "out = map (\<lambda>r. (select_row r)\<lparr>total_bytes := 0\<rparr>) (rows df3)"
      unfolding out by (intro select_bytes_default) (simp_all add: cols)
    then show ?thesis by simp
  qed
qed

text \<open>
  Two logs that meet the hypotheses: an HTTP log whose \<open>response_body_len\<close> column holds 42
  and a missing cell, and a connection log with \<open>orig_bytes = 100\<close> and \<open>resp_bytes = 2\<close>.
\<close>

theorem total_bytes_nonneg_witness:
  "(\<exists>out. load_and_standardize_log ''http.log.csv''
       (Some \<lparr>columns = [''response_body_len''],
              rows = [empty_row(''response_body_len'' := Num 42), empty_row]\<rparr>) = Some out \<and>
     (\<forall>r\<in>set [empty_row(''response_body_len'' := Num 42), empty_row].
        0 \<le> numeric_or_zero (r ''response_body_len'')) \<and>
     map total_bytes out = [42, 0] \<and> (\<forall>e\<in>set out. 0 \<le> total_bytes e)) \<and>
   (\<exists>out. load_and_standardize_log ''conn.log.csv''
       (Some \<lparr>columns = [''orig_bytes'', ''resp_bytes''],
              rows = [empty_row(''orig_bytes'' := Num 100, ''resp_bytes'' := Num 2)]\<rparr>) = Some out \<and>
     (\<forall>r\<in>set [empty_row(''orig_bytes'' := Num 100, ''resp_bytes'' := Num 2)].
        0 \<le> numeric_or_zero (r ''orig_bytes'') \<and> 0 \<le> numeric_or_zero (r ''resp_bytes'') \<and>
        numeric_or_zero (r ''orig_bytes'') + numeric_or_zero (r ''resp_bytes'') \<le> 2 ^ 63 - 1) \<and>
     map total_bytes out = [102] \<and> (\<forall>e\<in>set out. 0 \<le> total_bytes e))"
proof -
  let ?df = "\<lparr>columns = [''response_body_len''],
              rows = [empty_row(''response_body_len'' := Num 42), empty_row]\<rparr>"
  let ?cf = "\<lparr>columns = [''orig_bytes'', ''resp_bytes''],
              rows = [empty_row(''orig_bytes'' := Num 100, ''resp_bytes'' := Num 2)]\<rparr>"
  have a: "load_and_standardize_log ''http.log.csv'' (Some ?df) =
      Some [\<lparr>datetime = NaT, unified_protocol = Some ''http'', total_bytes = 42, event_count = 1\<rparr>,
            \<lparr>datetime = NaT, unified_protocol = Some ''http'', total_bytes = 0, event_count = 1\<rparr>]"
    by (simp add: load_and_standardize_log_def standardize_datetime_def standardize_protocol_def
          standardize_bytes_def select_standard_def select_row_def assign_def lower_def lower_char_def
          empty_row_def int_column_def round_f64_id stamp_in_range_def Let_def)
  have b: "load_and_standardize_log ''conn.log.csv'' (Some ?cf) =
      Some [\<lparr>datetime = NaT, unified_protocol = Some ''conn'', total_bytes = 102, event_count = 1\<rparr>]"
    by (simp add: load_and_standardize_log_def standardize_datetime_def standardize_protocol_def
          standardize_bytes_def select_standard_def select_row_def assign_def lower_def lower_char_def
          empty_row_def int_column_def round_f64_id stamp_in_range_def Let_def)
  have h: "\<forall>r\<in>set (rows ?df). 0 \<le> numeric_or_zero (r ''response_body_len'')"
    by (simp add: empty_row_def)
  have k: "\<forall>r\<in>set (rows ?cf). 0 \<le> numeric_or_zero (r ''orig_bytes'') \<and>
       0 \<le> numeric_or_zero (r ''resp_bytes'') \<and>
       numeric_or_zero (r ''orig_bytes'') + numeric_or_zero (r ''resp_bytes'') \<le> 2 ^ 63 - 1"
    by (simp add: empty_row_def)
  have "\<forall>e\<in>set [\<lparr>datetime = NaT, unified_protocol = Some ''http'', total_bytes = 42, event_count = 1\<rparr>,
            \<lparr>datetime = NaT, unified_protocol = Some ''http'', total_bytes = 0, event_count = 1\<rparr>].
          0 \<le> total_bytes e"
    using total_bytes_nonneg [OF a] h by simp
  moreover
  have "\<forall>e\<in>set [\<lparr>datetime = NaT, unified_protocol = Some ''conn'', total_bytes = 102, event_count = 1\<rparr>].
          0 \<le> total_bytes e"
    using total_bytes_nonneg [OF b] k by simp
  ultimately show ?thesis using a b h k by simp
qed

text \<open>
  C2. For a connection log with a \<open>service\<close> column the normalizer always returns a table,
  and its records split into one group per input row, in row order. Every record has
  \<open>event_count = 1\<close>. A row whose service cell is the text \<open>s\<close> gives as many records as
  \<open>s\<close> has comma-separated entries (one more than it has commas), carrying the entries in
  order, each trimmed and lowercased: no label holds a capital letter, and no label begins
  or ends with a blank, a tab or a line break. For \<open>s = "gssapi,dce_rpc"\<close> the records are
  exactly \<open>gssapi\<close> and \<open>dce_rpc\<close>; for \<open>s = " HTTP , Dns"\<close> they are \<open>http\<close> and \<open>dns\<close>.
\<close>

theorem service_row_explosion:
  assumes "''service'' \<in> set (columns df)"
  shows "\<exists>out pieces.
           load_and_standardize_log ''conn.log.csv'' (Some df) = Some out \<and>
           out = concat pieces \<and>
           list_all2 (\<lambda>r es.
               (\<forall>e\<in>set es. event_count e = 1) \<and>
               (\<forall>s. r ''service'' = Str s \<longrightarrow>
                  length es = Suc (count_list s (CHR '','')) \<and>
                  map unified_protocol es = map (\<lambda>x. Some (lower (strip x))) (split_comma s) \<and>
                  (\<forall>e\<in>set es. \<forall>l. unified_protocol e = Some l \<longrightarrow>
                     (\<forall>c\<in>set l. c \<notin> set ascii_uppercase) \<and>
                     (l \<noteq> [] \<longrightarrow> hd l \<notin> set ascii_whitespace \<and> last l \<notin> set ascii_whitespace)) \<and>
                  (s = ''gssapi,dce_rpc'' \<longrightarrow>
                     map unified_protocol es = [Some ''gssapi'', Some ''dce_rpc''] \<and>
                     map event_count es = [1, 1]) \<and>
                  (s = '' HTTP , Dns'' \<longrightarrow>
                     map unified_protocol es = [Some ''http'', Some ''dns''])))
             (rows df) pieces"
proof -
  let ?labels = "\<lambda>r. map (\<lambda>s. lower (strip s))
                   (split_comma (py_str (fillna (Str ''unknown_service'') (r ''service''))))"
  obtain d g where out: "load_and_standardize_log ''conn.log.csv'' (Some df) =
       Some (concat (map (\<lambda>r. map (\<lambda>x. \<lparr>datetime = d r, unified_protocol = Some x,
                                            total_bytes = g r, event_count = 1\<rparr>)
                                  (?labels r))
                         (rows df)))"
    by (erule load_conn_service [OF assms])
  let ?Q = "\<lambda>r es.
               (\<forall>e\<in>set es. event_count e = 1) \<and>
               (\<forall>s. r ''service'' = Str s \<longrightarrow>
                  length es = Suc (count_list s (CHR '','')) \<and>
                  map unified_protocol es = map (\<lambda>x. Some (lower (strip x))) (split_comma s) \<and>
                  (\<forall>e\<in>set es. \<forall>l. unified_protocol e = Some l \<longrightarrow>
                     (\<forall>c\<in>set l. c \<notin> set ascii_uppercase) \<and>
                     (l \<noteq> [] \<longrightarrow> hd l \<notin> set ascii_whitespace \<and> last l \<notin> set ascii_whitespace)) \<and>
                  (s = ''gssapi,dce_rpc'' \<longrightarrow>
                     map unified_protocol es = [Some ''gssapi'', Some ''dce_rpc''] \<and>
                     map event_count es = [1, 1]) \<and>
                  (s = '' HTTP , Dns'' \<longrightarrow>
                     map unified_protocol es = [Some ''http'', Some ''dns'']))"
  let ?g = "\<lambda>r. map (\<lambda>x. \<lparr>datetime = d r, unified_protocol = Some x,
                                            total_bytes = g r, event_count = 1\<rparr>) (?labels r)"
  have ex1: "map (\<lambda>x. lower (strip x)) (split_comma ''gssapi,dce_rpc'') = [''gssapi'', ''dce_rpc'']"
    by (simp add: split_comma_def strip_def lower_def lower_char_def is_space_def)
  have ex2: "map (\<lambda>x. lower (strip x)) (split_comma '' HTTP , Dns'') = [''http'', ''dns'']"
    by (simp add: split_comma_def strip_def lower_def lower_char_def is_space_def)
  have "?Q r (?g r)" for r
  proof (intro conjI allI impI ballI)
    fix s assume s: "r ''service'' = Str s"
    show "length (?g r) = Suc (count_list s (CHR '',''))"
      by (simp add: s length_split_comma)
    show "map unified_protocol (?g r) = map (\<lambda>x. Some (lower (strip x))) (split_comma s)"
      by (simp add: s o_def)
    {
      fix e l assume "e \<in> set (?g r)" and l: "unified_protocol e = Some l"
      then obtain x where "l = lower (strip x)" by auto
      with label_clean [of x]
      show "c \<notin> set ascii_uppercase" if "c \<in> set l" for c using that by blast
      from \<open>l = lower (strip x)\<close> label_clean [of x]
      show "hd l \<notin> set ascii_whitespace" "last l \<notin> set ascii_whitespace" if "l \<noteq> []"
        using that by blast+
    }
    {
      assume "s = ''gssapi,dce_rpc''"
      then show "map unified_protocol (?g r) = [Some ''gssapi'', Some ''dce_rpc'']"
        and "map event_count (?g r) = [1, 1]"
        using ex1 by (simp_all add: s o_def)
    }
    {
      assume "s = '' HTTP , Dns''"
      then show "map unified_protocol (?g r) = [Some ''http'', Some ''dns'']"
        using ex2 by (simp add: s o_def)
    }
  qed auto
  from groups_of_concat [of "rows df" ?Q ?g, OF this] out show ?thesis
    by simp
qed

text \<open>A log with one row of each example: the second needs both the trimming and the
  lowercasing.\<close>

theorem service_row_explosion_witness:
  "''service'' \<in> set (columns \<lparr>columns = [''ts'', ''service''],
        rows = [empty_row(''ts'' := Num 5, ''service'' := Str ''gssapi,dce_rpc''),
                empty_row(''ts'' := Num 6, ''service'' := Str '' HTTP , Dns'')]\<rparr>) \<and>
   (\<exists>out. load_and_standardize_log ''conn.log.csv''
       (Some \<lparr>columns = [''ts'', ''service''],
              rows = [empty_row(''ts'' := Num 5, ''service'' := Str ''gssapi,dce_rpc''),
                      empty_row(''ts'' := Num 6, ''service'' := Str '' HTTP , Dns'')]\<rparr>) = Some out \<and>
      map unified_protocol out = [Some ''gssapi'', Some ''dce_rpc'', Some ''http'', Some ''dns''])"
proof -
  let ?r1 = "empty_row(''ts'' := Num 5, ''service'' := Str ''gssapi,dce_rpc'')"
  let ?r2 = "empty_row(''ts'' := Num 6, ''service'' := Str '' HTTP , Dns'')"
  let ?df = "\<lparr>columns = [''ts'', ''service''], rows = [?r1, ?r2]\<rparr>"
  let ?Q = "\<lambda>r es.
               (\<forall>e\<in>set es. event_count e = 1) \<and>
               (\<forall>s. r ''service'' = Str s \<longrightarrow>
                  length es = Suc (count_list s (CHR '','')) \<and>
                  map unified_protocol es = map (\<lambda>x. Some (lower (strip x))) (split_comma s) \<and>
                  (\<forall>e\<in>set es. \<forall>l. unified_protocol e = Some l \<longrightarrow>
                     (\<forall>c\<in>set l. c \<notin> set ascii_uppercase) \<and>
                     (l \<noteq> [] \<longrightarrow> hd l \<notin> set ascii_whitespace \<and> last l \<notin> set ascii_whitespace)) \<and>
                  (s = ''gssapi,dce_rpc'' \<longrightarrow>
                     map unified_protocol es = [Some ''gssapi'', Some ''dce_rpc''] \<and>
                     map event_count es = [1, 1]) \<and>
                  (s = '' HTTP , Dns'' \<longrightarrow>
                     map unified_protocol es = [Some ''http'', Some ''dns'']))"
  have h: "''service'' \<in> set (columns ?df)" by simp
  have s1: "?r1 ''service'' = Str ''gssapi,dce_rpc''" and s2: "?r2 ''service'' = Str '' HTTP , Dns''"
    by simp_all
  from service_row_explosion [OF h] obtain out pieces where
    out: "load_and_standardize_log ''conn.log.csv'' (Some ?df) = Some out"
    and cat: "out = concat pieces"
    and la: "list_all2 ?Q (rows ?df) pieces"
    by (elim exE conjE)
  from la have "list_all2 ?Q [?r1, ?r2] pieces" by (simp only: frame.select_convs)
  then obtain es1 es2 where pieces: "pieces = [es1, es2]" and q1: "?Q ?r1 es1" and q2: "?Q ?r2 es2"
    unfolding list_all2_Cons1 list_all2_Nil by blast
  from q1 s1 have 1: "map unified_protocol es1 = [Some ''gssapi'', Some ''dce_rpc'']" by blast
  from q2 s2 have 2: "map unified_protocol es2 = [Some ''http'', Some ''dns'']" by blast
  have labels: "map unified_protocol out = [Some ''gssapi'', Some ''dce_rpc'', Some ''http'', Some ''dns'']"
    by (simp add: cat pieces 1 2)
  show ?thesis
    apply (rule conjI)
     apply (rule h)
    apply (rule exI [of _ out])
    apply (rule conjI)
     apply (rule out)
    apply (rule labels)
    done
qed

section \<open>Properties of the protocol pie\<close>

subsection \<open>Grouping and sorting\<close>

lemma mset_insert_key: "mset (insert_key k xs) = add_mset k (mset xs)"
  by (induction xs) auto

lemma mset_sort_keys: "mset (sort_keys ks) = mset ks"
  by (induction ks) (simp_all add: sort_keys_def mset_insert_key)

lemma set_sort_keys: "set (sort_keys ks) = set ks"
  using mset_sort_keys [of ks] by (metis set_mset_mset)

lemma distinct_sort_keys: "distinct (sort_keys ks) = distinct ks"
  using mset_sort_keys [of ks] by (rule mset_eq_imp_distinct_iff)


lemma keys_groupby_sum: "map fst (groupby_sum df) = sort_keys (remdups (map unified_protocol df))"
  by (simp add: groupby_sum_def o_def)


lemma set_keys_groupby_sum: "fst ` set (groupby_sum df) = unified_protocol ` set df"
  using arg_cong [OF keys_groupby_sum [of df], of set] by (simp add: set_sort_keys)



lemma sorts_descending_sort_values_desc: "sorts_descending sort_values_desc"
proof -
  have "sorted_wrt (\<lambda>a b. snd b \<le> snd a) (sort_values_desc xs)" for xs :: "(label \<times> int) list"
  proof -
    have "sorted (map snd (sort_key snd (rev xs)))" by (rule sorted_sort_key)
    then have "sorted_wrt (\<lambda>a b. snd a \<le> snd b) (sort_key snd (rev xs))"
      by (simp add: sorted_wrt_map)
    then show ?thesis
      by (simp add: sort_values_desc_def sorted_wrt_rev)
  qed
  moreover have "mset (sort_values_desc xs) = mset xs" for xs :: "(label \<times> int) list"
    by (simp add: sort_values_desc_def)
  ultimately show ?thesis by (simp add: sorts_descending_def)
qed


lemma sorted_agg:
  assumes "sorts_descending srt"
  shows "mset (srt xs) = mset xs" "sorted_wrt (\<lambda>a b. snd b \<le> snd a) (srt xs)"
  using assms by (simp_all add: sorts_descending_def)

lemma plot_protocol_pie_agg:
  "plot_protocol_pie srt df out_path =
     (let agg = srt (groupby_sum (non_excluded df))
      in Pie (if 8 < length agg
              then take 8 agg @ [(Some ''other'', sum_list (map snd (drop 8 agg)))]
              else agg) # save_and_show out_path)"
  by (simp add: plot_protocol_pie_def non_excluded_def top_n_def Let_def)


subsection \<open>Sums are preserved\<close>

lemma group_sum_Cons:
  "group_sum (e # df) = (\<lambda>k. (if unified_protocol e = k then event_count e else 0) + group_sum df k)"
  by (rule ext) (simp add: group_sum_def)

lemma sum_list_absent_key:
  "l \<notin> set ks \<Longrightarrow> sum_list (map (\<lambda>k. if l = k then (c::int) else 0) ks) = 0"
  by (induction ks) auto

lemma sum_list_single_key:
  "distinct ks \<Longrightarrow> l \<in> set ks \<Longrightarrow> sum_list (map (\<lambda>k. if l = k then (c::int) else 0) ks) = c"
  by (induction ks) (auto simp: sum_list_absent_key)

lemma sum_group_sums:
  assumes "distinct ks" "unified_protocol ` set df \<subseteq> set ks"
  shows "sum_list (map (group_sum df) ks) = sum_list (map event_count df)"
  using assms(2)
proof (induction df)
  case Nil
  show ?case by (simp add: group_sum_def)
next
  case (Cons e df)
  then have "unified_protocol e \<in> set ks" and IH: "sum_list (map (group_sum df) ks) = sum_list (map event_count df)"
    by auto
  have "sum_list (map (group_sum (e # df)) ks) =
        sum_list (map (\<lambda>k. if unified_protocol e = k then event_count e else 0) ks) +
        sum_list (map (group_sum df) ks)"
    by (simp add: group_sum_Cons sum_list_addf)
  also have "\<dots> = event_count e + sum_list (map event_count df)"
    using sum_list_single_key [OF assms(1) \<open>unified_protocol e \<in> set ks\<close>] IH by simp
  finally show ?case by simp
qed

lemma sum_groupby_sum: "sum_list (map snd (groupby_sum df)) = sum_list (map event_count df)"
proof -
  have "sum_list (map snd (groupby_sum df)) =
        sum_list (map (group_sum df) (sort_keys (remdups (map unified_protocol df))))"
    by (simp add: groupby_sum_def o_def)
  also have "\<dots> = sum_list (map event_count df)"
    by (rule sum_group_sums) (simp_all add: distinct_sort_keys set_sort_keys)
  finally show ?thesis .
qed

lemma sum_list_mset_eq:
  fixes xs ys :: "(label \<times> int) list"
  assumes "mset xs = mset ys"
  shows "sum_list (map snd xs) = sum_list (map snd ys)"
proof -
  have "mset (map snd xs) = mset (map snd ys)" using assms by (metis mset_map)
  then show ?thesis by (metis sum_mset_sum_list)
qed

lemma other_not_excluded: "\<not> isin (Some ''other'') transport_protocols_to_exclude"
  by (simp add: isin_def transport_protocols_to_exclude_def)

lemma non_excluded_label:
  "e \<in> set (non_excluded df) \<Longrightarrow> \<not> isin (unified_protocol e) transport_protocols_to_exclude"
  by (simp add: non_excluded_def)



text \<open>
  C5. Whatever the sorting routine: the chart is decided by the records that survive the
  exclusion alone, so two datasets that differ only in records labelled \<open>tcp\<close>, \<open>udp\<close>,
  \<open>icmp\<close>, \<open>arp\<close>, \<open>unknown_transport\<close>, \<open>unknown_protocol\<close>, \<open>unknown_service\<close> or
  \<open>unknown_log_type\<close> give the same pie, however large those records' counts; no slice
  carries one of these labels; and the slices add up to the summed \<open>event_count\<close> of the
  surviving records, so no excluded count enters any slice, \<open>other\<close> included.
\<close>

theorem excluded_labels_dropped:
  assumes "sorts_descending srt"
  shows "(\<forall>df'. non_excluded df' = non_excluded df \<longrightarrow>
            plot_protocol_pie srt df' out_path = plot_protocol_pie srt df out_path) \<and>
         (\<exists>slices. plot_protocol_pie srt df out_path = Pie slices # save_and_show out_path \<and>
            (\<forall>(k, v)\<in>set slices. \<not> isin k transport_protocols_to_exclude) \<and>
            sum_list (map snd slices) = sum_list (map event_count (non_excluded df)))"
proof
  show "\<forall>df'. non_excluded df' = non_excluded df \<longrightarrow>
            plot_protocol_pie srt df' out_path = plot_protocol_pie srt df out_path"
    by (simp add: plot_protocol_pie_agg)
next
  let ?g = "groupby_sum (non_excluded df)"
  let ?agg = "srt ?g"
  let ?slices = "if 8 < length ?agg
              then take 8 ?agg @ [(Some ''other'', sum_list (map snd (drop 8 ?agg)))]
              else ?agg"
  have m: "mset ?agg = mset ?g"
    using sorted_agg [OF assms] by blast
  then have sets: "set ?agg = set ?g" by (metis set_mset_mset)
  have lab: "\<not> isin k transport_protocols_to_exclude" if "(k, v) \<in> set ?agg" for k v
  proof -
    from that sets have "k \<in> fst ` set ?g" by force
    then have "k \<in> unified_protocol ` set (non_excluded df)"
      by (simp add: set_keys_groupby_sum)
    then show ?thesis using non_excluded_label by auto
  qed
  have 1: "plot_protocol_pie srt df out_path = Pie ?slices # save_and_show out_path"
    by (simp add: plot_protocol_pie_agg Let_def)
  have 2: "\<forall>(k, v)\<in>set ?slices. \<not> isin k transport_protocols_to_exclude"
    using lab other_not_excluded by (auto dest: in_set_takeD)
  have "sum_list (map snd ?slices) = sum_list (map snd ?agg)"
  proof (cases "8 < length ?agg")
    case True
    have "sum_list (map snd (take 8 ?agg)) + sum_list (map snd (drop 8 ?agg)) =
          sum_list (map snd (take 8 ?agg @ drop 8 ?agg))"
      by (simp only: map_append sum_list_append)
    with True show ?thesis by simp
  next
    case False
    then show ?thesis by simp
  qed
  also have "\<dots> = sum_list (map snd ?g)" by (rule sum_list_mset_eq [OF m])
  also have "\<dots> = sum_list (map event_count (non_excluded df))" by (rule sum_groupby_sum)
  finally have 3: "sum_list (map snd ?slices) = sum_list (map event_count (non_excluded df))" .
  from 1 2 3 show "\<exists>slices. plot_protocol_pie srt df out_path = Pie slices # save_and_show out_path \<and>
            (\<forall>(k, v)\<in>set slices. \<not> isin k transport_protocols_to_exclude) \<and>
            sum_list (map snd slices) = sum_list (map event_count (non_excluded df))"
    by (intro exI [of _ ?slices] conjI)
qed

theorem excluded_labels_dropped_witness:
  "sorts_descending sort_values_desc \<and>
   non_excluded [proto_event ''tcp'' 1000, proto_event ''dns'' 3, proto_event ''unknown_service'' 500] =
     non_excluded [proto_event ''dns'' 3] \<and>
   plot_protocol_pie sort_values_desc
     [proto_event ''tcp'' 1000, proto_event ''dns'' 3, proto_event ''unknown_service'' 500] None =
     plot_protocol_pie sort_values_desc [proto_event ''dns'' 3] None \<and>
   (\<exists>slices. plot_protocol_pie sort_values_desc [proto_event ''dns'' 3] None = [Pie slices, Show] \<and>
      (\<forall>(k, v)\<in>set slices. \<not> isin k transport_protocols_to_exclude) \<and>
      sum_list (map snd slices) = 3)"
proof -
  let ?big = "[proto_event ''tcp'' 1000, proto_event ''dns'' 3, proto_event ''unknown_service'' 500]"
  let ?small = "[proto_event ''dns'' 3]"
  have eq: "non_excluded ?big = non_excluded ?small"
    by code_simp
  have s: "sum_list (map event_count (non_excluded ?small)) = 3"
    by code_simp
  have sh: "save_and_show None = [Show]"
    by (simp add: save_and_show_def)
  note inst = excluded_labels_dropped [OF sorts_descending_sort_values_desc, of ?small None]
  from inst have same: "plot_protocol_pie sort_values_desc ?big None = plot_protocol_pie sort_values_desc ?small None"
    using eq by blast
  from inst obtain slices where
    "plot_protocol_pie sort_values_desc ?small None = Pie slices # save_and_show None"
    "\<forall>(k, v)\<in>set slices. \<not> isin k transport_protocols_to_exclude"
    "sum_list (map snd slices) = sum_list (map event_count (non_excluded ?small))"
    by blast
  then have "\<exists>slices. plot_protocol_pie sort_values_desc ?small None = [Pie slices, Show] \<and>
      (\<forall>(k, v)\<in>set slices. \<not> isin k transport_protocols_to_exclude) \<and>
      sum_list (map snd slices) = 3"
    unfolding sh s by blast
  with sorts_descending_sort_values_desc eq same show ?thesis by blast
qed

text \<open>
  C3. A dataset holding only \<open>tcp\<close> and \<open>udp\<close> records leaves an empty series after the
  exclusion. The function has no test for that: it hands the empty series to
  \<^verbatim>\<open>plt.pie\<close>, writes the image file and shows the figure.
\<close>

theorem empty_series_still_plotted:
  "plot_protocol_pie sort_values_desc [proto_event ''tcp'' 3, proto_event ''udp'' 2] (Some ''pie.png'') =
   [Pie [], Savefig ''pie.png'', Show]"
  by code_simp

section \<open>Properties of the connections-over-time chart\<close>

subsection \<open>What is printed and plotted, and what happens to the store\<close>

text \<open>An assignment to the \<open>datetime\<close> column changes the table it is applied to: done on
  the caller's reference, it would replace the caller's unparseable cells by NaT.\<close>

lemma set_datetime_in_place:
  "frames (set_datetime 0 to_datetime (single_frame [conn_event Unparseable])) 0 = [conn_event NaT]"
  by (simp add: set_datetime_def single_frame_def conn_event_def)

lemma plot_effects:
  "fst (plot_connections_over_time df freq out_path s) =
     (let valid = filter (\<lambda>e. notna (datetime e)) (map coerce_datetime (frames s df))
      in if valid = [] then [Print NoValidTimestamps]
         else case resample_sum freq (count_series valid) of
                None \<Rightarrow> [Print ResampleFailed]
              | Some connections \<Rightarrow>
                  if connections = [] then [Print NoDataAfterResampling]
                  else Plot connections # save_and_show out_path)"
proof -
  have "coerce_datetime = (\<lambda>e. e\<lparr>datetime := to_datetime (datetime e)\<rparr>)"
    by (rule ext) (simp add: coerce_datetime_def)
  then show ?thesis
    by (simp add: plot_connections_over_time_def copy_frame_def new_frame_def set_datetime_def
          Let_def split: option.splits)
qed

lemma plot_store:
  "r < next_ref s \<Longrightarrow> frames (snd (plot_connections_over_time df freq out_path s)) r = frames s r"
  by (simp add: plot_connections_over_time_def copy_frame_def new_frame_def set_datetime_def
        Let_def split: option.splits)

lemma notna_coerce: "notna (datetime (coerce_datetime e)) = has_timestamp e"
  by (cases "datetime e") (simp_all add: notna_def coerce_datetime_def has_timestamp_def)

lemma valid_rows:
  "filter (\<lambda>e. notna (datetime e)) (map coerce_datetime df) = map coerce_datetime (filter has_timestamp df)"
  by (simp add: filter_map o_def notna_coerce)

lemma coerce_id: "has_timestamp e \<Longrightarrow> coerce_datetime e = e"
  by (cases "datetime e") (simp_all add: coerce_datetime_def has_timestamp_def)

lemma valid_rows':
  "filter (\<lambda>e. notna (datetime e)) (map coerce_datetime df) = filter has_timestamp df"
proof -
  have "map coerce_datetime (filter has_timestamp df) = filter has_timestamp df"
    by (induction df) (simp_all add: coerce_id)
  then show ?thesis by (simp add: valid_rows)
qed

subsection \<open>Resampling\<close>

lemma div_mult_bounds:
  fixes a w :: int
  assumes "0 < w"
  shows "a div w * w \<le> a" "a < a div w * w + w"
proof -
  have "a div w * w = a - a mod w" by (simp add: minus_mod_eq_div_mult)
  moreover have "0 \<le> a mod w" "a mod w < w" using assms by simp_all
  ultimately show "a div w * w \<le> a" "a < a div w * w + w" by linarith+
qed

lemma sorted_hd_le:
  fixes xs :: "int list"
  shows "sorted xs \<Longrightarrow> x \<in> set xs \<Longrightarrow> hd xs \<le> x"
  by (cases xs) auto

lemma sorted_le_last:
  fixes xs :: "int list"
  shows "sorted xs \<Longrightarrow> x \<in> set xs \<Longrightarrow> x \<le> last xs"
  by (induction xs) (auto split: if_splits)

lemma resample_buckets_cover:
  assumes w: "0 < w" and ne: "series \<noteq> []" and srt: "sorted (map fst series)"
  obtains n start where "0 < n"
    and "resample_buckets w series =
           map (\<lambda>i. (start + int i * w, bucket_sum series (start + int i * w) w)) [0..<n]"
    and "\<And>p. p \<in> set series \<Longrightarrow> start \<le> fst p \<and> fst p < start + int n * w"
proof -
  define first where "first = fst (hd series)"
  define lst where "lst = fst (last series)"
  define origin where "origin = (first div 86400) * 86400"
  define start where "start = origin + ((first - origin) div w) * w"
  define n where "n = nat ((lst - start) div w) + 1"
  have eq: "resample_buckets w series =
           map (\<lambda>i. (start + int i * w, bucket_sum series (start + int i * w) w)) [0..<n]"
    using ne by (simp add: resample_buckets_def Let_def first_def lst_def origin_def start_def n_def)
  have first: "first = hd (map fst series)" and lst: "lst = last (map fst series)"
    using ne by (simp_all add: first_def lst_def hd_map last_map)
  have start_le: "start \<le> first"
    using div_mult_bounds(1) [OF w, of "first - origin"] by (simp add: start_def)
  have bounds: "first \<le> fst p \<and> fst p \<le> lst" if "p \<in> set series" for p
  proof -
    from that have "fst p \<in> set (map fst series)" by simp
    then show ?thesis
      unfolding first lst using sorted_hd_le [OF srt] sorted_le_last [OF srt] by blast
  qed
  have "first \<le> lst" using bounds [of "hd series"] ne by simp
  then have nonneg: "0 \<le> (lst - start) div w"
    using start_le w by (simp add: pos_imp_zdiv_nonneg_iff)
  then have n: "int n = (lst - start) div w + 1" by (simp add: n_def)
  have "lst - start < (lst - start) div w * w + w"
    by (rule div_mult_bounds(2) [OF w])
  then have lst_lt: "lst < start + int n * w"
    by (simp add: n algebra_simps)
  show ?thesis
  proof (rule that [of n start])
    show "0 < n" by (simp add: n_def)
    show "resample_buckets w series =
           map (\<lambda>i. (start + int i * w, bucket_sum series (start + int i * w) w)) [0..<n]"
      by (rule eq)
    fix p assume "p \<in> set series"
    from bounds [OF this] start_le lst_lt
    show "start \<le> fst p \<and> fst p < start + int n * w" by linarith
  qed
qed

subsection \<open>The series and the bucket sums\<close>

lemma count_series_sorted: "sorted (map fst (count_series df))"
  by (simp add: count_series_def)

lemma set_count_series:
  "set (count_series df) = {(t, event_count e) | t e. e \<in> set df \<and> datetime e = Timestamp t}"
proof -
  let ?g = "\<lambda>e. map_option (\<lambda>t. (t, event_count e)) (stamp_of (datetime e))"
  have "set (List.map_filter ?g df) = {(t, event_count e) | t e. e \<in> set df \<and> datetime e = Timestamp t}"
  proof (induction df)
    case Nil
    show ?case by (simp add: map_filter_simps)
  next
    case (Cons e df)
    then show ?case
      by (cases "datetime e") (auto simp: map_filter_simps)
  qed
  then show ?thesis by (simp add: count_series_def)
qed

lemma sum_filter_mset:
  fixes xs ys :: "(int \<times> int) list"
  assumes "mset xs = mset ys"
  shows "sum_list (map snd (filter P xs)) = sum_list (map snd (filter P ys))"
proof -
  have "mset (map snd (filter P xs)) = mset (map snd (filter P ys))"
    using assms by (metis mset_filter mset_map)
  then show ?thesis by (metis sum_mset_sum_list)
qed

lemma bucket_sum_count_series:
  "bucket_sum (count_series df) b w = sum_list (map event_count (events_between df b (b + w)))"
proof -
  let ?g = "\<lambda>e. map_option (\<lambda>t. (t, event_count e)) (stamp_of (datetime e))"
  let ?P = "\<lambda>p. b \<le> fst p \<and> fst p < b + w"
  have "bucket_sum (count_series df) b w = sum_list (map snd (filter ?P (List.map_filter ?g df)))"
    unfolding bucket_sum_def by (rule sum_filter_mset) (simp add: count_series_def)
  also have "\<dots> = sum_list (map event_count (events_between df b (b + w)))"
  proof (induction df)
    case Nil
    show ?case by (simp add: map_filter_simps events_between_def)
  next
    case (Cons e df)
    then show ?case
      by (cases "datetime e") (simp_all add: map_filter_simps events_between_def)
  qed
  finally show ?thesis .
qed

lemma events_between_valid:
  "events_between (filter has_timestamp df) a b = events_between df a b"
  by (induction df) (auto simp: events_between_def has_timestamp_def split: option.splits)

lemma time_buckets_general:
  assumes "0 < w" and "\<exists>e\<in>set (frames s df). has_timestamp e"
  shows "\<exists>start n. 0 < n \<and>
           fst (plot_connections_over_time df (Seconds w) out_path s) =
             Plot (map (\<lambda>i. (start + int i * int w,
                              sum_list (map event_count
                                (events_between (frames s df)
                                   (start + int i * int w) (start + int i * int w + int w)))))
                     [0..<n]) # save_and_show out_path \<and>
           (\<forall>e\<in>set (frames s df). \<forall>t. datetime e = Timestamp t \<longrightarrow>
               start \<le> t \<and> t < start + int n * int w)"
proof -
  let ?valid = "filter has_timestamp (frames s df)"
  let ?ser = "count_series ?valid"
  from assms(2) have valid: "?valid \<noteq> []" by (simp add: filter_empty_conv)
  then obtain e where "e \<in> set ?valid" by (cases ?valid) auto
  then obtain t where "e \<in> set ?valid" "datetime e = Timestamp t"
    by (cases "datetime e") (auto simp: has_timestamp_def)
  then have "(t, event_count e) \<in> set ?ser" unfolding set_count_series by blast
  then have ne: "?ser \<noteq> []" by auto
  from assms(1) have w: "0 < int w" by simp
  obtain n start where n: "0 < n"
    and eq: "resample_buckets (int w) ?ser =
           map (\<lambda>i. (start + int i * int w, bucket_sum ?ser (start + int i * int w) (int w))) [0..<n]"
    and cover: "\<And>p. p \<in> set ?ser \<Longrightarrow> start \<le> fst p \<and> fst p < start + int n * int w"
    by (erule resample_buckets_cover [OF w ne count_series_sorted])
  have buckets: "resample_buckets (int w) ?ser =
      map (\<lambda>i. (start + int i * int w,
                 sum_list (map event_count
                   (events_between (frames s df) (start + int i * int w) (start + int i * int w + int w)))))
        [0..<n]"
    unfolding eq by (simp add: bucket_sum_count_series events_between_valid)
  have nonempty: "resample_buckets (int w) ?ser \<noteq> []"
    unfolding eq using n by simp
  have 1: "fst (plot_connections_over_time df (Seconds w) out_path s) =
             Plot (resample_buckets (int w) ?ser) # save_and_show out_path"
    using assms(1) valid nonempty by (simp add: plot_effects valid_rows' Let_def)
  have 2: "\<forall>e\<in>set (frames s df). \<forall>t. datetime e = Timestamp t \<longrightarrow>
               start \<le> t \<and> t < start + int n * int w"
  proof (intro ballI allI impI)
    fix e t assume e: "e \<in> set (frames s df)" and t: "datetime e = Timestamp t"
    then have "e \<in> set ?valid" by (simp add: has_timestamp_def)
    with t have "(t, event_count e) \<in> set ?ser" unfolding set_count_series by blast
    from cover [OF this] show "start \<le> t \<and> t < start + int n * int w" by simp
  qed
  show ?thesis
    apply (rule exI [of _ start])
    apply (rule exI [of _ n])
    apply (intro conjI)
      apply (rule n)
     apply (simp only: 1 buckets)
    apply (rule 2)
    done
qed


lemma thirty_second_series:
  "resample_buckets 30 [(day * 86400 + 5, 1), (day * 86400 + 20, 1), (day * 86400 + 35, 1)] =
     [(day * 86400, 2), (day * 86400 + 30, 1)]"
proof -
  have u: "[0..<2] = [0, 1]" by (simp add: upt_rec)
  show ?thesis
    by (simp add: resample_buckets_def Let_def bucket_sum_def u)
qed

lemma thirty_second_example:
  assumes "map (\<lambda>e. (datetime e, event_count e)) (frames s df) =
             [(Timestamp (day * 86400 + 5), 1), (Timestamp (day * 86400 + 20), 1),
              (Timestamp (day * 86400 + 35), 1)]"
  shows "fst (plot_connections_over_time df (Seconds 30) out_path s) =
           Plot [(day * 86400, 2), (day * 86400 + 30, 1)] # save_and_show out_path"
proof -
  from assms obtain e1 e2 e3 where rows: "frames s df = [e1, e2, e3]"
    and e1: "datetime e1 = Timestamp (day * 86400 + 5)" "event_count e1 = 1"
    and e2: "datetime e2 = Timestamp (day * 86400 + 20)" "event_count e2 = 1"
    and e3: "datetime e3 = Timestamp (day * 86400 + 35)" "event_count e3 = 1"
    by (auto simp: map_eq_Cons_conv)
  have valid: "filter has_timestamp (frames s df) = [e1, e2, e3]"
    by (simp add: rows has_timestamp_def e1 e2 e3)
  have ser: "count_series [e1, e2, e3] =
      [(day * 86400 + 5, 1), (day * 86400 + 20, 1), (day * 86400 + 35, 1)]"
    by (simp add: count_series_def map_filter_simps e1 e2 e3)
  show ?thesis
    by (simp add: plot_effects valid_rows' valid ser thirty_second_series Let_def)
qed

lemma frames_single_frame: "frames (single_frame es) 0 = es"
  by (simp add: single_frame_def)

text \<open>
  C6. For a positive width of \<open>w\<close> seconds and a dataset with at least one valid
  timestamp, the chart plots \<open>n > 0\<close> buckets that start at \<open>start\<close>, \<open>start + w\<close>,
  \<open>start + 2w\<close>, ...; the value of each bucket is the summed \<open>event_count\<close> of the
  records whose timestamp lies in the bucket, its left edge included and its right edge
  excluded (so a bucket without records is present with value 0); and every valid timestamp
  lies in one of the buckets. With \<open>w = 30\<close> and three records of count 1 at 00:00:05,
  00:00:20 and 00:00:35 of any day, the chart has exactly the two buckets starting
  00:00:00 and 00:00:30, with counts 2 and 1.
\<close>

theorem time_bucketing:
  assumes "0 < w" and "\<exists>e\<in>set (frames s df). has_timestamp e"
  shows "(\<exists>n start. 0 < n \<and>
           fst (plot_connections_over_time df (Seconds w) out_path s) =
             Plot (map (\<lambda>i. (start + int i * int w,
                              sum_list (map event_count
                                (events_between (frames s df)
                                   (start + int i * int w) (start + int i * int w + int w)))))
                     [0..<n]) # save_and_show out_path \<and>
           (\<forall>e\<in>set (frames s df). \<forall>t. datetime e = Timestamp t \<longrightarrow>
               start \<le> t \<and> t < start + int n * int w)) \<and>
         (\<forall>day. w = 30 \<and>
            map (\<lambda>e. (datetime e, event_count e)) (frames s df) =
              [(Timestamp (day * 86400 + 5), 1), (Timestamp (day * 86400 + 20), 1),
               (Timestamp (day * 86400 + 35), 1)] \<longrightarrow>
            fst (plot_connections_over_time df (Seconds w) out_path s) =
              Plot [(day * 86400, 2), (day * 86400 + 30, 1)] # save_and_show out_path)"
proof
  from time_buckets_general [OF assms]
  show "\<exists>n start. 0 < n \<and>
           fst (plot_connections_over_time df (Seconds w) out_path s) =
             Plot (map (\<lambda>i. (start + int i * int w,
                              sum_list (map event_count
                                (events_between (frames s df)
                                   (start + int i * int w) (start + int i * int w + int w)))))
                     [0..<n]) # save_and_show out_path \<and>
           (\<forall>e\<in>set (frames s df). \<forall>t. datetime e = Timestamp t \<longrightarrow>
               start \<le> t \<and> t < start + int n * int w)"
    by blast
next
  show "\<forall>day. w = 30 \<and>
            map (\<lambda>e. (datetime e, event_count e)) (frames s df) =
              [(Timestamp (day * 86400 + 5), 1), (Timestamp (day * 86400 + 20), 1),
               (Timestamp (day * 86400 + 35), 1)] \<longrightarrow>
            fst (plot_connections_over_time df (Seconds w) out_path s) =
              Plot [(day * 86400, 2), (day * 86400 + 30, 1)] # save_and_show out_path"
    using thirty_second_example [of s df _ out_path] by auto
qed

theorem time_bucketing_witness:
  "0 < (30 :: nat) \<and>
   (\<exists>e\<in>set (frames (single_frame [conn_event (Timestamp 5), conn_event (Timestamp 20),
                                     conn_event (Timestamp 35)]) 0). has_timestamp e) \<and>
   fst (plot_connections_over_time 0 (Seconds 30) None
          (single_frame [conn_event (Timestamp 5), conn_event (Timestamp 20),
                         conn_event (Timestamp 35)])) =
     [Plot [(0, 2), (30, 1)], Show]"
proof -
  let ?s = "single_frame [conn_event (Timestamp 5), conn_event (Timestamp 20), conn_event (Timestamp 35)]"
  have h1: "0 < (30 :: nat)" by simp
  have h2: "\<exists>e\<in>set (frames ?s 0). has_timestamp e"
    by (simp add: frames_single_frame has_timestamp_def conn_event_def)
  have rows: "map (\<lambda>e. (datetime e, event_count e)) (frames ?s 0) =
      [(Timestamp (0 * 86400 + 5), 1), (Timestamp (0 * 86400 + 20), 1), (Timestamp (0 * 86400 + 35), 1)]"
    by (simp add: frames_single_frame conn_event_def)
  note inst = time_bucketing [OF h1 h2, of None, THEN conjunct2, THEN spec, of 0]
  from inst rows
  have "fst (plot_connections_over_time 0 (Seconds 30) None ?s) = [Plot [(0, 2), (30, 1)], Show]"
    by (simp add: save_and_show_def)
  with h1 h2 show ?thesis by blast
qed

text \<open>
  C8. Records whose \<open>datetime\<close> is null or unparseable play no part in the chart: two
  datasets with the same records of valid timestamp, in the same order, give the same
  output, whatever null or unparseable records each holds besides. When no record has a
  valid timestamp, the function prints the message about missing timestamps and does
  nothing else: it plots and saves no chart.
\<close>

theorem invalid_timestamps_dropped:
  "(\<forall>df' (s' :: store). filter has_timestamp (frames s' df') = filter has_timestamp (frames s df) \<longrightarrow>
       fst (plot_connections_over_time df' freq out_path s') =
       fst (plot_connections_over_time df freq out_path s)) \<and>
   ((\<forall>e\<in>set (frames s df). \<not> has_timestamp e) \<longrightarrow>
       fst (plot_connections_over_time df freq out_path s) = [Print NoValidTimestamps])"
proof (intro conjI allI impI)
  fix df' and s' :: store
  assume "filter has_timestamp (frames s' df') = filter has_timestamp (frames s df)"
  then show "fst (plot_connections_over_time df' freq out_path s') =
       fst (plot_connections_over_time df freq out_path s)"
    by (simp add: plot_effects valid_rows')
next
  assume "\<forall>e\<in>set (frames s df). \<not> has_timestamp e"
  then have "filter has_timestamp (frames s df) = []" by (simp add: filter_empty_conv)
  then show "fst (plot_connections_over_time df freq out_path s) = [Print NoValidTimestamps]"
    by (simp add: plot_effects valid_rows')
qed


theorem invalid_timestamps_dropped_witness:
  "filter has_timestamp (frames (single_frame [conn_event NaT, conn_event Unparseable]) 0) = [] \<and>
   fst (plot_connections_over_time 0 (Seconds 30) (Some ''line.png'')
          (single_frame [conn_event NaT, conn_event Unparseable])) = [Print NoValidTimestamps] \<and>
   filter has_timestamp (frames (single_frame [conn_event NaT, conn_event (Timestamp 5), conn_event Unparseable]) 0) =
     filter has_timestamp (frames (single_frame [conn_event (Timestamp 5)]) 0) \<and>
   fst (plot_connections_over_time 0 (Seconds 30) (Some ''line.png'')
          (single_frame [conn_event NaT, conn_event (Timestamp 5), conn_event Unparseable])) =
     fst (plot_connections_over_time 0 (Seconds 30) (Some ''line.png'')
          (single_frame [conn_event (Timestamp 5)]))"
proof -
  let ?none = "single_frame [conn_event NaT, conn_event Unparseable]"
  let ?mixed = "single_frame [conn_event NaT, conn_event (Timestamp 5), conn_event Unparseable]"
  let ?clean = "single_frame [conn_event (Timestamp 5)]"
  have h: "\<forall>e\<in>set (frames ?none 0). \<not> has_timestamp e"
    by (simp add: frames_single_frame has_timestamp_def conn_event_def)
  have eq: "filter has_timestamp (frames ?mixed 0) = filter has_timestamp (frames ?clean 0)"
    by (simp add: frames_single_frame has_timestamp_def conn_event_def)
  from invalid_timestamps_dropped [of ?none 0 "Seconds 30" "Some ''line.png''"] h
  have 1: "fst (plot_connections_over_time 0 (Seconds 30) (Some ''line.png'') ?none) = [Print NoValidTimestamps]"
    by blast
  from invalid_timestamps_dropped [of ?clean 0 "Seconds 30" "Some ''line.png''"] eq
  have 2: "fst (plot_connections_over_time 0 (Seconds 30) (Some ''line.png'') ?mixed) =
           fst (plot_connections_over_time 0 (Seconds 30) (Some ''line.png'') ?clean)"
    by blast
  have none: "filter has_timestamp (frames ?none 0) = []"
    by (simp add: frames_single_frame has_timestamp_def conn_event_def)
  from none 1 eq 2 show ?thesis by blast
qed

text \<open>
  C10. The caller's table is the same after the call as before, and so is every other
  table that existed before the call: the function turns unparseable cells into NaT in a
  copy, never in the table it was given.
\<close>

theorem caller_frame_unchanged:
  assumes "df < next_ref s"
  shows "frames (snd (plot_connections_over_time df freq out_path s)) df = frames s df \<and>
         (\<forall>r < next_ref s. frames (snd (plot_connections_over_time df freq out_path s)) r = frames s r)"
  using assms by (simp add: plot_store)

theorem caller_frame_unchanged_witness:
  "0 < next_ref (single_frame [conn_event Unparseable, conn_event (Timestamp 5)]) \<and>
   frames (snd (plot_connections_over_time 0 (Seconds 30) None
                  (single_frame [conn_event Unparseable, conn_event (Timestamp 5)]))) 0 =
     [conn_event Unparseable, conn_event (Timestamp 5)]"
proof -
  let ?s = "single_frame [conn_event Unparseable, conn_event (Timestamp 5)]"
  have h: "0 < next_ref ?s" by (simp add: single_frame_def)
  from caller_frame_unchanged [OF h, of "Seconds 30" None] h show ?thesis
    by (simp add: frames_single_frame)
qed

end
